theory Spec2Isabelle
  imports Main "HOL-Library.AList"
begin

section \<open>Python values, strings and dictionaries\<close>

text \<open>
  The pipeline of \<^verbatim>\<open>map_creation/map.py\<close> (and its sibling \<^verbatim>\<open>usa_map/map.py\<close>) works on
  JSON study records, on sentences of the eligibility text and on rows of a table.
  Strings are \<open>string\<close>: a character is a code point from 0 to 255, so the strings of the
  model are the strings of Python over the Latin-1 range (a code point above 255 is
  outside the type). On that range \<^verbatim>\<open>str.lower\<close>, \<^verbatim>\<open>str.isspace\<close> and \<^verbatim>\<open>str.strip\<close>, the
  classes \<^verbatim>\<open>\s\<close>, \<^verbatim>\<open>\w\<close> and \<^verbatim>\<open>\d\<close> of \<^verbatim>\<open>re\<close>, the word boundary and the blanks that
  \<^verbatim>\<open>int\<close> skips are those of Python 3. \<^verbatim>\<open>str.upper\<close> is that of Python except at U+00B5,
  U+00DF and U+00FF, whose upper-case forms are not single characters of the range and
  which \<open>upper_char\<close> keeps: the source upper-cases a string only to compare it with
  \<^verbatim>\<open>'L'\<close> and the Roman keys, and no string that holds one of the three upper-cases to one
  of those.
  A Python dict is an association list in insertion order, updated with \<open>AList.update\<close>
  (replace in place, or append), read with \<open>map_of\<close>.
\<close>

datatype py_error = AttributeError | TypeError | ValueError | IndexError | KeyError

datatype json =
    JNull
  | JBool bool
  | JInt int
  | JStr string
  | JList "json list"
  | JObj "(string \<times> json) list"

type_synonym pydict = "(string \<times> json) list"

text \<open>
  The letters with a case: A to Z and the thirty Latin-1 capitals U+00C0..U+00DE (without
  the sign U+00D7), each with its small letter 32 places further.
\<close>

definition upper_letters :: string where
  "upper_letters = ''ABCDEFGHIJKLMNOPQRSTUVWXYZ'' @
    [CHR 0xC0, CHR 0xC1, CHR 0xC2, CHR 0xC3, CHR 0xC4, CHR 0xC5, CHR 0xC6, CHR 0xC7,
     CHR 0xC8, CHR 0xC9, CHR 0xCA, CHR 0xCB, CHR 0xCC, CHR 0xCD, CHR 0xCE, CHR 0xCF,
     CHR 0xD0, CHR 0xD1, CHR 0xD2, CHR 0xD3, CHR 0xD4, CHR 0xD5, CHR 0xD6, CHR 0xD8,
     CHR 0xD9, CHR 0xDA, CHR 0xDB, CHR 0xDC, CHR 0xDD, CHR 0xDE]"

definition lower_letters :: string where
  "lower_letters = ''abcdefghijklmnopqrstuvwxyz'' @
    [CHR 0xE0, CHR 0xE1, CHR 0xE2, CHR 0xE3, CHR 0xE4, CHR 0xE5, CHR 0xE6, CHR 0xE7,
     CHR 0xE8, CHR 0xE9, CHR 0xEA, CHR 0xEB, CHR 0xEC, CHR 0xED, CHR 0xEE, CHR 0xEF,
     CHR 0xF0, CHR 0xF1, CHR 0xF2, CHR 0xF3, CHR 0xF4, CHR 0xF5, CHR 0xF6, CHR 0xF8,
     CHR 0xF9, CHR 0xFA, CHR 0xFB, CHR 0xFC, CHR 0xFD, CHR 0xFE]"

definition digit_chars :: string where
  "digit_chars = ''0123456789''"

text \<open>
  The other characters that \<^verbatim>\<open>\w\<close> takes: the ordinal indicators, the superscript digits,
  the micro sign, the fractions, and the two small letters without a capital in the range.
\<close>

definition other_word_chars :: string where
  "other_word_chars =
    [CHR 0xAA, CHR 0xB2, CHR 0xB3, CHR 0xB5, CHR 0xB9, CHR 0xBA, CHR 0xBC, CHR 0xBD,
     CHR 0xBE, CHR 0xDF, CHR 0xFF]"

text \<open>
  \<^verbatim>\<open>str.isspace\<close> and \<^verbatim>\<open>\s\<close>: tab, LF, VT, FF, CR, the separators 0x1C..0x1F, the space,
  NEL (U+0085) and the no-break space (U+00A0).
\<close>

definition space_chars :: string where
  "space_chars =
    [CHR 0x09, CHR 0x0A, CHR 0x0B, CHR 0x0C, CHR 0x0D, CHR 0x1C, CHR 0x1D, CHR 0x1E, CHR 0x1F,
     CHR 0x20, CHR 0x85, CHR 0xA0]"

definition lower_char :: "char \<Rightarrow> char" where
  "lower_char c = (case map_of (zip upper_letters lower_letters) c of Some d \<Rightarrow> d | None \<Rightarrow> c)"

definition upper_char :: "char \<Rightarrow> char" where
  "upper_char c = (case map_of (zip lower_letters upper_letters) c of Some d \<Rightarrow> d | None \<Rightarrow> c)"

definition lower :: "string \<Rightarrow> string" where
  "lower s = map lower_char s"

definition upper :: "string \<Rightarrow> string" where
  "upper s = map upper_char s"

definition is_space :: "char \<Rightarrow> bool" where
  "is_space c \<longleftrightarrow> c \<in> set space_chars"

definition is_digit :: "char \<Rightarrow> bool" where
  "is_digit c \<longleftrightarrow> c \<in> set digit_chars"

definition is_word_char :: "char \<Rightarrow> bool" where
  "is_word_char c \<longleftrightarrow>
     c \<in> set (lower_letters @ upper_letters @ digit_chars @ ''_'' @ other_word_chars)"

definition strip :: "string \<Rightarrow> string" where
  "strip s = rev (dropWhile is_space (rev (dropWhile is_space s)))"

definition starts_with :: "string \<Rightarrow> string \<Rightarrow> bool" where
  "starts_with s p \<longleftrightarrow> take (length p) s = p"

definition ends_with :: "string \<Rightarrow> string \<Rightarrow> bool" where
  "ends_with s p \<longleftrightarrow> length p \<le> length s \<and> drop (length s - length p) s = p"

text \<open>\<^verbatim>\<open>sub in s\<close> for strings.\<close>

fun contains :: "string \<Rightarrow> string \<Rightarrow> bool" where
  "contains sub [] = (sub = [])"
| "contains sub (c # cs) = (starts_with (c # cs) sub \<or> contains sub cs)"

text \<open>\<^verbatim>\<open>sep.join(xs)\<close>.\<close>

fun join :: "string \<Rightarrow> string list \<Rightarrow> string" where
  "join sep [] = []"
| "join sep [x] = x"
| "join sep (x # y # ys) = x @ sep @ join sep (y # ys)"

text \<open>
  \<^verbatim>\<open>s.isdigit()\<close> and \<^verbatim>\<open>int(s)\<close> as the source uses them, on a captured numeral: a string of
  the digits 0 to 9. (For the superscript digits \<^verbatim>\<open>isdigit\<close> holds and \<^verbatim>\<open>int\<close> raises; the
  numeral pattern captures none.)
\<close>

definition isdigit :: "string \<Rightarrow> bool" where
  "isdigit s \<longleftrightarrow> s \<noteq> [] \<and> list_all is_digit s"

definition digit_val :: "char \<Rightarrow> int" where
  "digit_val c = (case map_of (zip digit_chars [0, 1, 2, 3, 4, 5, 6, 7, 8, 9]) c of
     Some d \<Rightarrow> d | None \<Rightarrow> 0)"

definition int_of_digits :: "string \<Rightarrow> int" where
  "int_of_digits s = foldl (\<lambda>a c. 10 * a + digit_val c) 0 s"

section \<open>Regular expressions\<close>

text \<open>
  The patterns of the source use literals, character classes, a greedy starred class,
  \<^verbatim>\<open>\b\<close>, \<^verbatim>\<open>$\<close>, sequence, alternation and capturing groups. \<open>rm\<close> is the backtracking
  matcher of \<^verbatim>\<open>re\<close>: from a position and the groups captured so far it lists every way to
  match, as end position and groups, in the order in which backtracking tries them
  (alternatives left to right, the longest repetition first). The flag is
  \<^verbatim>\<open>re.IGNORECASE\<close>; the classes used hold no letters, so it only affects literals.
\<close>

datatype regex =
    Lit string
  | Set string
  | Star string
  | WordB
  | Eol
  | Seq regex regex
  | Alt regex regex
  | Group regex

definition lit_match :: "bool \<Rightarrow> string \<Rightarrow> string \<Rightarrow> bool" where
  "lit_match ic p s \<longleftrightarrow> length p \<le> length s \<and>
     (if ic then lower (take (length p) s) = lower p else take (length p) s = p)"

definition word_at :: "string \<Rightarrow> nat \<Rightarrow> bool" where
  "word_at t i \<longleftrightarrow> i < length t \<and> is_word_char (t ! i)"

definition word_boundary :: "string \<Rightarrow> nat \<Rightarrow> bool" where
  "word_boundary t i \<longleftrightarrow> (0 < i \<and> word_at t (i - 1)) \<noteq> word_at t i"

definition at_eol :: "string \<Rightarrow> nat \<Rightarrow> bool" where
  "at_eol t i \<longleftrightarrow> i = length t \<or> (Suc i = length t \<and> t ! i = CHR 0x0A)"

fun rm :: "bool \<Rightarrow> regex \<Rightarrow> string \<Rightarrow> nat \<times> string list \<Rightarrow> (nat \<times> string list) list" where
  "rm ic (Lit p) t (i, gs) = (if lit_match ic p (drop i t) then [(i + length p, gs)] else [])"
| "rm ic (Set cs) t (i, gs) = (if i < length t \<and> t ! i \<in> set cs then [(Suc i, gs)] else [])"
| "rm ic (Star cs) t (i, gs) =
     map (\<lambda>j. (j, gs)) (rev [i ..< Suc (i + length (takeWhile (\<lambda>c. c \<in> set cs) (drop i t)))])"
| "rm ic WordB t (i, gs) = (if word_boundary t i then [(i, gs)] else [])"
| "rm ic Eol t (i, gs) = (if at_eol t i then [(i, gs)] else [])"
| "rm ic (Seq r1 r2) t st = concat (map (rm ic r2 t) (rm ic r1 t st))"
| "rm ic (Alt r1 r2) t st = rm ic r1 t st @ rm ic r2 t st"
| "rm ic (Group r) t (i, gs) =
     map (\<lambda>(j, gs'). (j, gs' @ [take (j - i) (drop i t)])) (rm ic r t (i, gs))"

text \<open>
  A match is (start, end, groups). \<open>first_match\<close> tries the start positions from left to
  right, as \<^verbatim>\<open>re.search\<close> does. \<open>scan\<close> is the loop of \<^verbatim>\<open>finditer\<close>: the start positions
  from left to right, those inside the previous match skipped.
\<close>

type_synonym rmatch = "nat \<times> nat \<times> string list"

fun first_match :: "bool \<Rightarrow> regex \<Rightarrow> string \<Rightarrow> nat list \<Rightarrow> rmatch option" where
  "first_match ic r t [] = None"
| "first_match ic r t (i # is) =
     (case rm ic r t (i, []) of
        [] \<Rightarrow> first_match ic r t is
      | (j, gs) # _ \<Rightarrow> Some (i, j, gs))"

definition re_search :: "bool \<Rightarrow> regex \<Rightarrow> string \<Rightarrow> rmatch option" where
  "re_search ic r t = first_match ic r t [0 ..< Suc (length t)]"

fun scan :: "bool \<Rightarrow> regex \<Rightarrow> string \<Rightarrow> nat list \<Rightarrow> nat \<Rightarrow> rmatch list" where
  "scan ic r t [] lim = []"
| "scan ic r t (i # is) lim =
     (if i < lim then scan ic r t is lim
      else case rm ic r t (i, []) of
             [] \<Rightarrow> scan ic r t is lim
           | (j, gs) # _ \<Rightarrow> (i, j, gs) # scan ic r t is (max j (Suc i)))"

definition re_finditer :: "bool \<Rightarrow> regex \<Rightarrow> string \<Rightarrow> rmatch list" where
  "re_finditer ic r t = scan ic r t [0 ..< Suc (length t)] 0"

text \<open>\<^verbatim>\<open>re.findall\<close> for a pattern with at most one group: the group, or the whole match.\<close>

definition re_findall :: "bool \<Rightarrow> regex \<Rightarrow> string \<Rightarrow> string list" where
  "re_findall ic r t =
     map (\<lambda>(i, j, gs). case gs of [] \<Rightarrow> take (j - i) (drop i t) | g # _ \<Rightarrow> g) (re_finditer ic r t)"

text \<open>\<^verbatim>\<open>re.split\<close>: the pieces between the matches (and the groups, when the pattern has any).\<close>

fun split_at :: "string \<Rightarrow> nat \<Rightarrow> rmatch list \<Rightarrow> string list" where
  "split_at t p [] = [drop p t]"
| "split_at t p ((i, j, gs) # ms) = take (i - p) (drop p t) # gs @ split_at t j ms"

definition re_split :: "bool \<Rightarrow> regex \<Rightarrow> string \<Rightarrow> string list" where
  "re_split ic r t = split_at t 0 (re_finditer ic r t)"

section \<open>The skin-type classifier\<close>

text \<open>\<^verbatim>\<open>\b(vi|v|iv|iii|ii|i|l|[1-6])\b\<close>\<close>

definition numeral_alts :: regex where
  "numeral_alts =
     Alt (Lit ''vi'') (Alt (Lit ''v'') (Alt (Lit ''iv'') (Alt (Lit ''iii'')
       (Alt (Lit ''ii'') (Alt (Lit ''i'') (Alt (Lit ''l'') (Set ''123456'')))))))"

definition valid_numeral_pattern :: regex where
  "valid_numeral_pattern = Seq WordB (Seq (Group numeral_alts) WordB)"

text \<open>The numeral pattern, \<^verbatim>\<open>\s*(?:-|to|through)\s*\<close>, the numeral pattern.\<close>

definition range_pattern :: regex where
  "range_pattern =
     Seq valid_numeral_pattern (Seq (Star space_chars)
       (Seq (Alt (Lit ''-'') (Alt (Lit ''to'') (Lit ''through'')))
         (Seq (Star space_chars) valid_numeral_pattern)))"

definition roman_map :: "(string \<times> int) list" where
  "roman_map = [(''I'', 1), (''II'', 2), (''III'', 3), (''IV'', 4), (''V'', 5), (''VI'', 6)]"

definition to_roman_map :: "(int \<times> string) list" where
  "to_roman_map = map (\<lambda>(k, v). (v, k)) roman_map"

definition to_int :: "string \<Rightarrow> int option" where
  "to_int s =
     (let s_upper = upper s in
      if s_upper = ''L'' then Some 1
      else if isdigit s then Some (int_of_digits s)
      else map_of roman_map s_upper)"

definition default_result :: pydict where
  "default_result =
     [(''extracted_score'', JStr ''Not Specified''), (''Type_I'', JInt 0), (''Type_II'', JInt 0),
      (''Type_III'', JInt 0), (''Type_IV'', JInt 0), (''Type_V'', JInt 0), (''Type_VI'', JInt 0)]"

definition set_flag :: "string \<Rightarrow> pydict \<Rightarrow> pydict" where
  "set_flag r result = AList.update (''Type_'' @ r) (JInt 1) result"

text \<open>\<^verbatim>\<open>to_roman_map.get(n, '')\<close>\<close>

definition roman_or_empty :: "int \<Rightarrow> string" where
  "roman_or_empty n = (case map_of to_roman_map n of Some r \<Rightarrow> r | None \<Rightarrow> [])"

text \<open>
  The branch taken when the range pattern matched, with the two captured numerals;
  \<open>range_fill\<close> is the body of the inner \<^verbatim>\<open>if\<close>.
\<close>

definition range_fill :: "int \<Rightarrow> int \<Rightarrow> pydict \<Rightarrow> pydict" where
  "range_fill start_num end_num result =
     AList.update ''extracted_score''
       (JStr (roman_or_empty start_num @ ''-'' @ roman_or_empty end_num))
       (fold (\<lambda>i res. case map_of to_roman_map i of Some r \<Rightarrow> set_flag r res | None \<Rightarrow> res)
          [start_num .. end_num] result)"

definition range_branch :: "string \<Rightarrow> string \<Rightarrow> pydict \<Rightarrow> pydict" where
  "range_branch start_str end_str result =
     (case (to_int start_str, to_int end_str) of
        (Some start_num, Some end_num) \<Rightarrow>
          if start_num < end_num then range_fill start_num end_num result else result
      | _ \<Rightarrow> result)"

text \<open>The branch taken when the range pattern did not match: the enumeration.\<close>

definition enum_scores :: "string list \<Rightarrow> int list" where
  "enum_scores numerals_found = sort (remdups (List.map_filter to_int numerals_found))"

definition enum_romans :: "int list \<Rightarrow> string list" where
  "enum_romans scores =
     List.map_filter (\<lambda>score. case map_of to_roman_map score of
        Some r \<Rightarrow> if r \<noteq> [] then Some r else None | None \<Rightarrow> None) scores"

definition enum_branch :: "string list \<Rightarrow> pydict \<Rightarrow> pydict" where
  "enum_branch numerals_found result =
     (let roman_scores = enum_romans (enum_scores numerals_found);
          result' = fold set_flag roman_scores result
      in if roman_scores \<noteq> [] then
           AList.update ''extracted_score'' (JStr (join '', '' roman_scores)) result'
         else result')"

text \<open>
  \<^verbatim>\<open>extract_and_standardize_scores(sentence)\<close>. The range pattern has two groups, so the
  match always carries two captured strings (lemma \<open>range_groups\<close> below).
\<close>

definition extract_and_standardize_scores :: "json \<Rightarrow> pydict" where
  "extract_and_standardize_scores sentence =
     (case sentence of
        JStr s \<Rightarrow>
          (let text = lower s; result = default_result in
           if list_ex (\<lambda>word. contains word text) [''wrinkle''] then
             AList.update ''extracted_score'' (JStr ''Not a Skin Type Score'') result
           else if contains ''all'' text \<or> contains ''any'' text then
             AList.update ''extracted_score'' (JStr ''All'')
               (map (\<lambda>(k, v). if starts_with k ''Type_'' then (k, JInt 1) else (k, v)) result)
           else
             (case re_search True range_pattern text of
                Some (i, j, gs) \<Rightarrow>
                  (case gs of
                     [start_str, end_str] \<Rightarrow> range_branch start_str end_str result
                   | _ \<Rightarrow> result)
              | None \<Rightarrow> enum_branch (re_findall True valid_numeral_pattern text) result))
      | _ \<Rightarrow> [])"

text \<open>Reading a classification: the label and the six flags, in the order I to VI.\<close>

definition skin_type_cols :: "string list" where
  "skin_type_cols = map (\<lambda>r. ''Type_'' @ r) [''I'', ''II'', ''III'', ''IV'', ''V'', ''VI'']"

definition label_of :: "pydict \<Rightarrow> json option" where
  "label_of d = map_of d ''extracted_score''"

definition flags_of :: "pydict \<Rightarrow> json option list" where
  "flags_of d = map (map_of d) skin_type_cols"

definition skin_types :: "int list" where
  "skin_types = [1, 2, 3, 4, 5, 6]"

text \<open>What a flag list looks like when exactly the types satisfying \<open>P\<close> are set.\<close>

definition flags_where :: "(int \<Rightarrow> bool) \<Rightarrow> json option list" where
  "flags_where P = map (\<lambda>k. Some (JInt (if P k then 1 else 0))) skin_types"

definition isinstance_str :: "json \<Rightarrow> bool" where
  "isinstance_str v = (case v of JStr s \<Rightarrow> True | _ \<Rightarrow> False)"

text \<open>A captured numeral converts to one of the six types.\<close>

definition numeral_ok :: "string \<Rightarrow> bool" where
  "numeral_ok g \<longleftrightarrow> (\<exists>n. to_int g = Some n \<and> 1 \<le> n \<and> n \<le> 6)"

text \<open>
  The label the specification describes for an enumeration: the matched numerals in the
  order of their first appearance, duplicates removed, as Roman numerals.
\<close>

definition first_seen :: "'a list \<Rightarrow> 'a list" where
  "first_seen ns = rev (remdups (rev ns))"

definition spec_label_by_appearance :: "string list \<Rightarrow> string" where
  "spec_label_by_appearance numerals_found =
     join '', '' (map roman_or_empty (first_seen (List.map_filter to_int numerals_found)))"

section \<open>Study records\<close>

text \<open>
  A study record is the JSON value the registry returns. JSON numbers are integers in this
  model (floating-point values are left out), and an object has each key once. Every
  operation the source applies to a value of the wrong type raises, as in Python;
  \<open>py_bind\<close> passes the first exception on.
\<close>

definition py_bind :: "py_error + 'a \<Rightarrow> ('a \<Rightarrow> py_error + 'b) \<Rightarrow> py_error + 'b" where
  "py_bind m f = (case m of Inl e \<Rightarrow> Inl e | Inr v \<Rightarrow> f v)"

fun truthy :: "json \<Rightarrow> bool" where
  "truthy JNull = False"
| "truthy (JBool b) = b"
| "truthy (JInt n) = (n \<noteq> 0)"
| "truthy (JStr s) = (s \<noteq> [])"
| "truthy (JList xs) = (xs \<noteq> [])"
| "truthy (JObj kvs) = (kvs \<noteq> [])"

text \<open>\<^verbatim>\<open>d.get(k, dflt)\<close>: only a dict has \<^verbatim>\<open>get\<close>.\<close>

fun py_get :: "json \<Rightarrow> string \<Rightarrow> json \<Rightarrow> py_error + json" where
  "py_get (JObj kvs) k dflt = Inr (case map_of kvs k of Some v \<Rightarrow> v | None \<Rightarrow> dflt)"
| "py_get v k dflt = Inl AttributeError"

text \<open>\<^verbatim>\<open>for x in v\<close>: the elements of a list, the keys of a dict, the characters of a string.\<close>

fun py_iter :: "json \<Rightarrow> py_error + json list" where
  "py_iter (JList xs) = Inr xs"
| "py_iter (JObj kvs) = Inr (map (\<lambda>(k, v). JStr k) kvs)"
| "py_iter (JStr s) = Inr (map (\<lambda>c. JStr [c]) s)"
| "py_iter v = Inl TypeError"

text \<open>\<^verbatim>\<open>v[0]\<close>\<close>

fun py_index0 :: "json \<Rightarrow> py_error + json" where
  "py_index0 (JList []) = Inl IndexError"
| "py_index0 (JList (x # xs)) = Inr x"
| "py_index0 (JStr []) = Inl IndexError"
| "py_index0 (JStr (c # cs)) = Inr (JStr [c])"
| "py_index0 (JObj kvs) = Inl KeyError"
| "py_index0 v = Inl TypeError"

text \<open>\<^verbatim>\<open>k in v\<close> and \<^verbatim>\<open>v[k]\<close> for a string \<open>k\<close>.\<close>

fun py_in :: "string \<Rightarrow> json \<Rightarrow> py_error + bool" where
  "py_in k (JObj kvs) = Inr (k \<in> fst ` set kvs)"
| "py_in k (JStr s) = Inr (contains k s)"
| "py_in k (JList xs) = Inr (JStr k \<in> set xs)"
| "py_in k v = Inl TypeError"

fun py_getitem :: "json \<Rightarrow> string \<Rightarrow> py_error + json" where
  "py_getitem (JObj kvs) k = (case map_of kvs k of Some v \<Rightarrow> Inr v | None \<Rightarrow> Inl KeyError)"
| "py_getitem v k = Inl TypeError"

text \<open>
  \<^verbatim>\<open>int(v)\<close>. A string has its surrounding blanks removed (tab, LF, VT, FF, CR, the
  space, NEL and the no-break space; not the separators 0x1C..0x1F), may carry a sign,
  and is a run of the digits 0 to 9 in which single underscores may separate digits;
  anything else is a \<^verbatim>\<open>ValueError\<close>.
\<close>

definition int_space_chars :: string where
  "int_space_chars =
    [CHR 0x09, CHR 0x0A, CHR 0x0B, CHR 0x0C, CHR 0x0D, CHR 0x20, CHR 0x85, CHR 0xA0]"

definition strip_chars :: "string \<Rightarrow> string \<Rightarrow> string" where
  "strip_chars cs s =
     rev (dropWhile (\<lambda>c. c \<in> set cs) (rev (dropWhile (\<lambda>c. c \<in> set cs) s)))"

fun digits_us :: "string \<Rightarrow> bool" where
  "digits_us [] = False"
| "digits_us [c] = is_digit c"
| "digits_us (c # d # cs) =
     (is_digit c \<and> (if d = CHR ''_'' then digits_us cs else digits_us (d # cs)))"

definition py_int_str :: "string \<Rightarrow> py_error + int" where
  "py_int_str s =
     (let t = strip_chars int_space_chars s;
          neg = starts_with t ''-'' \<and> t \<noteq> [];
          body = (if t \<noteq> [] \<and> (hd t = CHR ''-'' \<or> hd t = CHR ''+'') then tl t else t)
      in if digits_us body
         then Inr ((if neg then - 1 else 1) * int_of_digits (filter (\<lambda>c. c \<noteq> CHR ''_'') body))
         else Inl ValueError)"

fun py_int :: "json \<Rightarrow> py_error + int" where
  "py_int (JInt n) = Inr n"
| "py_int (JBool b) = Inr (if b then 1 else 0)"
| "py_int (JStr s) = py_int_str s"
| "py_int v = Inl TypeError"

section \<open>The criteria segmenter\<close>

record eligibility_sentence =
  sentence :: string
  is_exclusion :: bool

definition exclusion_pattern :: regex where
  "exclusion_pattern = Lit ''exclusion''"

text \<open>\<^verbatim>\<open>[.\n]\<close>\<close>

definition sentence_pattern :: regex where
  "sentence_pattern = Set [CHR ''.'', CHR 0x0A]"

text \<open>The inner loop over the sentences of one part.\<close>

definition keyword_sentences :: "string \<Rightarrow> string \<Rightarrow> bool \<Rightarrow> eligibility_sentence list" where
  "keyword_sentences keyword text_part excl =
     (if text_part = [] then []
      else map (\<lambda>s. \<lparr>sentence = strip s, is_exclusion = excl\<rparr>)
             (filter (\<lambda>s. contains keyword (lower s) \<and> strip s \<noteq> [])
                (re_split False sentence_pattern text_part)))"

text \<open>
  The body of \<^verbatim>\<open>parse_eligibility_criteria\<close> on a non-empty text: \<^verbatim>\<open>re.split\<close> at every
  occurrence of "exclusion", then \<^verbatim>\<open>parts[0]\<close> as inclusion and \<^verbatim>\<open>parts[1]\<close> (or the empty
  string) as exclusion. \<^verbatim>\<open>re.split\<close> returns at least one part.
\<close>

definition parse_text :: "string \<Rightarrow> string \<Rightarrow> eligibility_sentence list" where
  "parse_text eligibility_text keyword =
     (case re_split True exclusion_pattern eligibility_text of
        [] \<Rightarrow> []
      | p0 # rest \<Rightarrow>
          concat (map (\<lambda>(text_part, excl). keyword_sentences keyword text_part excl)
            [(p0, False), (case rest of [] \<Rightarrow> [] | p1 # _ \<Rightarrow> p1, True)]))"

definition parse_eligibility_criteria :: "json \<Rightarrow> string \<Rightarrow> py_error + eligibility_sentence list" where
  "parse_eligibility_criteria study_record keyword =
     py_bind (py_get study_record ''protocolSection'' (JObj [])) (\<lambda>protocol.
     py_bind (py_get protocol ''eligibilityModule'' (JObj [])) (\<lambda>em.
     py_bind (py_get em ''eligibilityCriteria'' (JStr [])) (\<lambda>eligibility_text.
       if \<not> truthy eligibility_text then Inr []
       else case eligibility_text of
              JStr s \<Rightarrow> Inr (parse_text s keyword)
            | _ \<Rightarrow> Inl TypeError)))"

text \<open>
  The segmenter the specification describes: the text before the first occurrence of
  "exclusion" is inclusion, all of the text after it is exclusion.
\<close>

definition spec_parse_text :: "string \<Rightarrow> string \<Rightarrow> eligibility_sentence list" where
  "spec_parse_text eligibility_text keyword =
     (case re_search True exclusion_pattern eligibility_text of
        None \<Rightarrow> keyword_sentences keyword eligibility_text False
      | Some (i, j, gs) \<Rightarrow>
          keyword_sentences keyword (take i eligibility_text) False
          @ keyword_sentences keyword (drop j eligibility_text) True)"

section \<open>The study detail aggregator\<close>

text \<open>
  \<^verbatim>\<open>extract_study_details\<close> of \<^verbatim>\<open>map_creation/map.py\<close>. The function of the same name in
  \<^verbatim>\<open>usa_map/map.py\<close> differs only in not reading the update date; the race part is the same.
\<close>

record details =
  status :: json
  us_facilities :: "pydict list"
  enrollment :: json
  enrollment_type :: json
  race_data :: pydict
  last_update_year :: json

definition default_details :: details where
  "default_details = \<lparr>status = JStr ''N/A'', us_facilities = [], enrollment = JStr ''N/A'',
     enrollment_type = JStr ''N/A'', race_data = [], last_update_year = JStr ''N/A''\<rparr>"

definition set_last_update_year :: "json \<Rightarrow> details \<Rightarrow> details" where
  "set_last_update_year last_update_date d =
     (if truthy last_update_date then
        (case last_update_date of
           JStr s \<Rightarrow> if 4 \<le> length s then d\<lparr>last_update_year := JStr (take 4 s)\<rparr> else d
         | _ \<Rightarrow> d)
      else d)"

definition set_enrollment :: "json \<Rightarrow> details \<Rightarrow> py_error + details" where
  "set_enrollment enrollment_info d =
     (if truthy enrollment_info then
        py_bind (py_in ''count'' enrollment_info) (\<lambda>has.
          if has then
            py_bind (py_getitem enrollment_info ''count'') (\<lambda>c.
            py_bind (py_get enrollment_info ''type'' (JStr ''N/A'')) (\<lambda>t.
              Inr (d\<lparr>enrollment := c, enrollment_type := t\<rparr>)))
          else Inr d)
      else Inr d)"

definition facility_of :: "json \<Rightarrow> py_error + pydict" where
  "facility_of loc =
     py_bind (py_get loc ''facility'' (JStr ''N/A'')) (\<lambda>f.
     py_bind (py_get loc ''city'' (JStr ''N/A'')) (\<lambda>c.
     py_bind (py_get loc ''state'' (JStr ''N/A'')) (\<lambda>s.
     py_bind (py_get loc ''zip'' (JStr ''N/A'')) (\<lambda>z.
     py_bind (py_get loc ''geoPoint'' (JObj [])) (\<lambda>gp.
     py_bind (py_get gp ''lat'' JNull) (\<lambda>lat.
     py_bind (py_get loc ''geoPoint'' (JObj [])) (\<lambda>gp'.
     py_bind (py_get gp' ''lon'' JNull) (\<lambda>lon.
       Inr [(''facility'', f), (''city'', c), (''state'', s), (''zip'', z),
            (''latitude'', lat), (''longitude'', lon)]))))))))"

fun collect_facilities :: "string \<Rightarrow> json list \<Rightarrow> py_error + pydict list" where
  "collect_facilities country [] = Inr []"
| "collect_facilities country (loc # locs) =
     py_bind (py_get loc ''country'' JNull) (\<lambda>c.
     py_bind (py_get loc ''geoPoint'' JNull) (\<lambda>gp.
       if c = JStr country \<and> truthy gp then
         py_bind (facility_of loc) (\<lambda>f.
         py_bind (collect_facilities country locs) (\<lambda>fs. Inr (f # fs)))
       else collect_facilities country locs))"

text \<open>\<^verbatim>\<open>sum(int(m.get('value', 0)) for m in measurements)\<close>\<close>

definition measurement_value :: "json \<Rightarrow> py_error + int" where
  "measurement_value m = py_bind (py_get m ''value'' (JInt 0)) py_int"

fun race_total :: "json list \<Rightarrow> py_error + int" where
  "race_total [] = Inr 0"
| "race_total (m # ms) =
     py_bind (measurement_value m) (\<lambda>n.
     py_bind (race_total ms) (\<lambda>total. Inr (n + total)))"

text \<open>\<^verbatim>\<open>f"Race_{race_title.replace(' ', '_')}"\<close>: only a string has \<^verbatim>\<open>replace\<close>.\<close>

definition race_key :: "string \<Rightarrow> string" where
  "race_key race_title = ''Race_'' @ map (\<lambda>c. if c = CHR '' '' then CHR ''_'' else c) race_title"

definition py_race_key :: "json \<Rightarrow> py_error + string" where
  "py_race_key race_title = (case race_title of JStr t \<Rightarrow> Inr (race_key t) | _ \<Rightarrow> Inl AttributeError)"

definition race_category :: "pydict \<Rightarrow> json \<Rightarrow> py_error + pydict" where
  "race_category rd cat =
     py_bind (py_get cat ''title'' JNull) (\<lambda>race_title.
       if truthy race_title then
         py_bind (py_get cat ''measurements'' (JList [])) (\<lambda>measurements.
         py_bind (py_iter measurements) (\<lambda>ms.
         py_bind (race_total ms) (\<lambda>total_count.
         py_bind (py_race_key race_title) (\<lambda>key.
           Inr (AList.update key (JInt total_count) rd)))))
       else Inr rd)"

fun race_categories :: "pydict \<Rightarrow> json list \<Rightarrow> py_error + pydict" where
  "race_categories rd [] = Inr rd"
| "race_categories rd (cat # cats) =
     py_bind (race_category rd cat) (\<lambda>rd'. race_categories rd' cats)"

definition race_measure :: "pydict \<Rightarrow> json \<Rightarrow> py_error + pydict" where
  "race_measure rd msr =
     py_bind (py_get msr ''title'' JNull) (\<lambda>title.
       if title = JStr ''Race (NIH/OMB)'' then
         py_bind (py_get msr ''classes'' (JList [JObj []])) (\<lambda>classes.
         py_bind (py_index0 classes) (\<lambda>cls.
         py_bind (py_get cls ''categories'' (JList [])) (\<lambda>categories.
         py_bind (py_iter categories) (\<lambda>cats. race_categories rd cats))))
       else Inr rd)"

fun race_measures :: "pydict \<Rightarrow> json list \<Rightarrow> py_error + pydict" where
  "race_measures rd [] = Inr rd"
| "race_measures rd (msr # msrs) =
     py_bind (race_measure rd msr) (\<lambda>rd'. race_measures rd' msrs)"

definition extract_race_data :: "json \<Rightarrow> py_error + pydict" where
  "extract_race_data results_section =
     py_bind (py_get results_section ''baselineCharacteristicsModule'' (JObj [])) (\<lambda>bcm.
     py_bind (py_get bcm ''measures'' (JList [])) (\<lambda>msrs.
     py_bind (py_iter msrs) (\<lambda>ms. race_measures [] ms)))"

text \<open>The part of \<^verbatim>\<open>extract_study_details\<close> that reads the protocol section.\<close>

definition extract_protocol :: "json \<Rightarrow> string \<Rightarrow> py_error + details" where
  "extract_protocol protocol country =
     py_bind (py_get protocol ''statusModule'' (JObj [])) (\<lambda>status_module.
     py_bind (py_get status_module ''overallStatus'' (JStr ''N/A'')) (\<lambda>st.
     py_bind (py_get status_module ''lastUpdatePostDateStruct'' (JObj [])) (\<lambda>post_date_struct.
     py_bind (py_get post_date_struct ''date'' JNull) (\<lambda>last_update_date.
     py_bind (py_get protocol ''designModule'' (JObj [])) (\<lambda>dm.
     py_bind (py_get dm ''enrollmentInfo'' JNull) (\<lambda>enrollment_info.
     py_bind (set_enrollment enrollment_info
                (set_last_update_year last_update_date (default_details\<lparr>status := st\<rparr>))) (\<lambda>d.
     py_bind (py_get protocol ''contactsLocationsModule'' (JObj [])) (\<lambda>clm.
     py_bind (py_get clm ''locations'' (JList [])) (\<lambda>locations.
     py_bind (py_iter locations) (\<lambda>locs.
     py_bind (collect_facilities country locs) (\<lambda>facs.
       Inr (d\<lparr>us_facilities := facs\<rparr>))))))))))))"

definition extract_study_details :: "json \<Rightarrow> string \<Rightarrow> py_error + details" where
  "extract_study_details study_record country =
     py_bind (py_get study_record ''protocolSection'' (JObj [])) (\<lambda>protocol.
       if \<not> truthy protocol then Inr default_details
       else
         py_bind (extract_protocol protocol country) (\<lambda>d.
         py_bind (py_get study_record ''resultsSection'' (JObj [])) (\<lambda>results_section.
           if truthy results_section then
             py_bind (extract_race_data results_section) (\<lambda>rd. Inr (d\<lparr>race_data := rd\<rparr>))
           else Inr d)))"

section \<open>The row assembler\<close>

definition SEARCH_KEYWORD :: string where
  "SEARCH_KEYWORD = ''fitzpatrick''"

definition COUNTRY_TO_ISOLATE :: string where
  "COUNTRY_TO_ISOLATE = ''United States''"

text \<open>\<^verbatim>\<open>d.update(other)\<close>\<close>

definition dict_update :: "pydict \<Rightarrow> pydict \<Rightarrow> pydict" where
  "dict_update d other = fold (\<lambda>(k, v). AList.update k v) other d"

text \<open>One pass of the loop over the studies: the rows it appends and the race keys it adds.\<close>

definition study_rows :: "json \<Rightarrow> py_error + (pydict list \<times> string list)" where
  "study_rows study =
     py_bind (py_get study ''protocolSection'' (JObj [])) (\<lambda>p.
     py_bind (py_get p ''identificationModule'' (JObj [])) (\<lambda>im.
     py_bind (py_get im ''nctId'' (JStr ''N/A'')) (\<lambda>nct_id.
     py_bind (extract_study_details study COUNTRY_TO_ISOLATE) (\<lambda>d.
       if us_facilities d = [] then Inr ([], [])
       else
         py_bind (parse_eligibility_criteria study SEARCH_KEYWORD) (\<lambda>sentences.
           case filter (\<lambda>s. \<not> is_exclusion s) sentences of
             [] \<Rightarrow> Inr ([], map fst (race_data d))
           | s0 # _ \<Rightarrow>
               (let score_data = extract_and_standardize_scores (JStr (sentence s0)) in
                if map_of score_data ''extracted_score'' = Some (JStr ''Not a Skin Type Score'')
                then Inr ([], map fst (race_data d))
                else Inr (map (\<lambda>facility.
                       dict_update (dict_update (dict_update
                         [(''nctId'', nct_id), (''status'', status d), (''enrollment'', enrollment d),
                          (''enrollment_type'', enrollment_type d),
                          (''last_update_year'', last_update_year d)]
                         score_data) facility) (race_data d)) (us_facilities d),
                     map fst (race_data d))))))))"

fun collect_rows :: "json list \<Rightarrow> py_error + (pydict list \<times> string list)" where
  "collect_rows [] = Inr ([], [])"
| "collect_rows (study # studies) =
     py_bind (study_rows study) (\<lambda>(rs, ks).
     py_bind (collect_rows studies) (\<lambda>(rs', ks'). Inr (rs @ rs', ks @ ks')))"

text \<open>
  The table: its columns and its rows, each row a dict over the columns.
  \<^verbatim>\<open>pd.DataFrame(rows)\<close> takes the keys in the order of their first appearance, the race
  columns no row has are added, and \<^verbatim>\<open>fillna(0)\<close> puts 0 in every missing or null cell.
\<close>

record data_frame =
  df_columns :: "string list"
  df_rows :: "pydict list"

definition fill_row :: "string list \<Rightarrow> pydict \<Rightarrow> pydict" where
  "fill_row cols r =
     map (\<lambda>c. (c, case map_of r c of
                    Some v \<Rightarrow> if v = JNull then JInt 0 else v
                  | None \<Rightarrow> JInt 0)) cols"

definition cell_number :: "json \<Rightarrow> int" where
  "cell_number v = (case v of JInt n \<Rightarrow> n | JBool b \<Rightarrow> (if b then 1 else 0) | _ \<Rightarrow> 0)"

text \<open>\<^verbatim>\<open>df[skin_type_cols].sum(axis=1)\<close> for one row.\<close>

definition flag_sum :: "pydict \<Rightarrow> int" where
  "flag_sum r =
     sum_list (map (\<lambda>c. case map_of r c of Some v \<Rightarrow> cell_number v | None \<Rightarrow> 0) skin_type_cols)"

definition process_raw_data :: "json list \<Rightarrow> py_error + data_frame" where
  "process_raw_data studies =
     py_bind (collect_rows studies) (\<lambda>(all_facility_rows, all_race_keys).
       if all_facility_rows = [] then Inr \<lparr>df_columns = [], df_rows = []\<rparr>
       else
         (let cols0 = first_seen (concat (map (map fst) all_facility_rows));
              cols = cols0 @ filter (\<lambda>c. c \<notin> set cols0) (first_seen all_race_keys);
              df = map (fill_row cols) all_facility_rows;
              kept = filter (\<lambda>r. flag_sum r \<noteq> 0) df
          in Inr \<lparr>df_columns = cols, df_rows = (if kept \<noteq> [] then kept else df)\<rparr>))"

section \<open>The geocoding stage\<close>

text \<open>
  A row of the table that reaches \<^verbatim>\<open>geocode_locations_with_places_api\<close>: the four address
  cells, the coordinates (absent when missing) and all the other columns together. An
  address cell holds any scalar; \<^verbatim>\<open>astype(str)\<close> turns it into its string form. Rows are
  addressed by position: the index labels of the table are unique.
\<close>

datatype cell = CStr string | CInt int | CBool bool | CNone | CNaN

fun digits_of_nat :: "nat \<Rightarrow> string" where
  "digits_of_nat n =
     (if n < 10 then [digit_chars ! n] else digits_of_nat (n div 10) @ [digit_chars ! (n mod 10)])"

fun py_str :: "cell \<Rightarrow> string" where
  "py_str (CStr s) = s"
| "py_str (CInt n) = (if n < 0 then ''-'' @ digits_of_nat (nat (- n)) else digits_of_nat (nat n))"
| "py_str (CBool b) = (if b then ''True'' else ''False'')"
| "py_str CNone = ''None''"
| "py_str CNaN = ''nan''"

record ('c, 'r) facility_row =
  facility :: cell
  city :: cell
  state :: cell
  zip_code :: cell
  latitude :: "'c option"
  longitude :: "'c option"
  other_columns :: 'r

record ('c, 'r) geocoded_row = "('c, 'r) facility_row" +
  search_query :: string
  place_name :: cell

text \<open>\<^verbatim>\<open>\d+$\<close>\<close>

definition ends_with_number_pattern :: regex where
  "ends_with_number_pattern = Seq (Set digit_chars) (Seq (Star digit_chars) Eol)"

text \<open>
  The masks and the query of one row, from its address strings: \<^verbatim>\<open>'SKIP'\<close> for a fatal
  flaw, otherwise the query with or without the zip.
\<close>

definition fatal_flaw :: "string \<Rightarrow> string \<Rightarrow> bool" where
  "fatal_flaw fac zp \<longleftrightarrow>
     (let ends_with_site = ends_with (lower fac) ''site'';
          ends_with_number = (re_search False ends_with_number_pattern fac \<noteq> None)
      in fac \<in> set [''N/A'', ''nan''] \<or> starts_with fac ''Call Suneva''
         \<or> zp \<in> set [''00000''] \<or> ends_with_site \<or> ends_with_number)"

definition bad_zip :: "string \<Rightarrow> bool" where
  "bad_zip zp \<longleftrightarrow> zp \<in> set [''N/A'', ''nan'']"

definition build_search_query :: "string \<Rightarrow> string \<Rightarrow> string \<Rightarrow> string \<Rightarrow> string" where
  "build_search_query fac cty st zp =
     (if fatal_flaw fac zp then ''SKIP''
      else if \<not> bad_zip zp then fac @ '', '' @ cty @ '', '' @ st @ '' '' @ zp
      else fac @ '', '' @ cty @ '', '' @ st)"

text \<open>
  The table before the loop: the address columns as strings, the \<^verbatim>\<open>search_query\<close> column,
  and the \<^verbatim>\<open>place_name\<close> column set to the empty string in every row.
\<close>

definition prepare_row :: "('c, 'r) facility_row \<Rightarrow> ('c, 'r) geocoded_row" where
  "prepare_row r =
     \<lparr>facility = CStr (py_str (facility r)), city = CStr (py_str (city r)),
      state = CStr (py_str (state r)), zip_code = CStr (py_str (zip_code r)),
      latitude = latitude r, longitude = longitude r, other_columns = other_columns r,
      search_query = build_search_query (py_str (facility r)) (py_str (city r))
                       (py_str (state r)) (py_str (zip_code r)),
      place_name = CStr []\<rparr>"

text \<open>
  The Places API: a call either raises or returns the list of results, each with an
  optional name and optional coordinates. The answer may depend on the query and on how
  many calls were made before. The API key is taken to be present (without it the
  function raises before it reads the table).
\<close>

record 'c place =
  name :: "string option"
  lat :: "'c option"
  lng :: "'c option"

datatype 'c api_result = ApiError | Results "'c place list"

type_synonym 'c places_api = "nat \<Rightarrow> string \<Rightarrow> 'c api_result"

record ('c, 'r) geo_state =
  df :: "('c, 'r) geocoded_row list"
  query_cache :: "(string \<times> 'c place list option) list"
  calls :: "string list"

text \<open>The end of the loop body: what is written into the row at \<open>index\<close>.\<close>

definition write_result ::
    "nat \<Rightarrow> 'c place list option \<Rightarrow> ('c, 'r) geo_state \<Rightarrow> ('c, 'r) geo_state" where
  "write_result index result st =
     (case result of
        Some (p # ps) \<Rightarrow>
          st\<lparr>df := (df st)[index := (df st ! index)
                 \<lparr>latitude := lat p, longitude := lng p,
                  place_name := (case name p of Some n \<Rightarrow> CStr n | None \<Rightarrow> CNone)\<rparr>]\<rparr>
      | _ \<Rightarrow>
          st\<lparr>df := (df st)[index := (df st ! index)\<lparr>place_name := CStr ''NO_RESULTS_FOUND''\<rparr>]\<rparr>)"

text \<open>
  One pass of the loop. A cache hit takes the stored result (\<open>None\<close> marks a failed
  call); a miss calls the API, stores the result or the failure marker, and on failure
  goes to the next row.
\<close>

definition geocode_row ::
    "'c places_api \<Rightarrow> ('c, 'r) geo_state \<Rightarrow> nat \<times> string \<Rightarrow> ('c, 'r) geo_state" where
  "geocode_row gmaps st iq =
     (case iq of (index, query) \<Rightarrow>
        (case map_of (query_cache st) query of
           Some result \<Rightarrow> write_result index result st
         | None \<Rightarrow>
             (case gmaps (length (calls st)) query of
                Results rs \<Rightarrow>
                  write_result index (Some rs)
                    (st\<lparr>query_cache := AList.update query (Some rs) (query_cache st),
                       calls := calls st @ [query]\<rparr>)
              | ApiError \<Rightarrow>
                  st\<lparr>query_cache := AList.update query None (query_cache st),
                     calls := calls st @ [query]\<rparr>)))"

definition rows_to_process :: "('c, 'r) geocoded_row list \<Rightarrow> (nat \<times> string) list" where
  "rows_to_process rows =
     map (\<lambda>(i, r). (i, search_query r))
       (filter (\<lambda>(i, r). search_query r \<noteq> ''SKIP'') (zip [0 ..< length rows] rows))"

definition geocode_run ::
    "'c places_api \<Rightarrow> ('c, 'r) facility_row list \<Rightarrow> ('c, 'r) geo_state" where
  "geocode_run gmaps df_to_geocode =
     (let rows = map prepare_row df_to_geocode
      in fold (\<lambda>iq st. geocode_row gmaps st iq) (rows_to_process rows)
           \<lparr>df = rows, query_cache = [], calls = []\<rparr>)"

definition geocode_locations_with_places_api ::
    "'c places_api \<Rightarrow> ('c, 'r) facility_row list \<Rightarrow> ('c, 'r) geocoded_row list" where
  "geocode_locations_with_places_api gmaps df_to_geocode = df (geocode_run gmaps df_to_geocode)"

text \<open>
  What the loop maintains: the log of external calls has no repetition, the cache holds
  exactly the queries that were sent, each with the answer of its one call (\<open>None\<close> for a
  failed call).
\<close>

fun stored :: "'c api_result \<Rightarrow> 'c place list option" where
  "stored ApiError = None"
| "stored (Results rs) = Some rs"

definition cache_inv :: "'c places_api \<Rightarrow> ('c, 'r) geo_state \<Rightarrow> bool" where
  "cache_inv gmaps st \<longleftrightarrow>
     distinct (calls st) \<and> set (calls st) = fst ` set (query_cache st) \<and>
     (\<forall>n < length (calls st).
        map_of (query_cache st) (calls st ! n) = Some (stored (gmaps n (calls st ! n))))"

text \<open>The part of a row the loop never writes.\<close>

definition row_frame :: "('c, 'r) geocoded_row \<Rightarrow> cell \<times> cell \<times> cell \<times> cell \<times> 'r \<times> string" where
  "row_frame r = (facility r, city r, state r, zip_code r, other_columns r, search_query r)"

section \<open>Reading the race counts and example records\<close>

text \<open>Whether \<^verbatim>\<open>int(m.get('value', 0))\<close> returns for a measurement, and what it returns.\<close>

definition convertible :: "json \<Rightarrow> bool" where
  "convertible m = (case measurement_value m of Inr n \<Rightarrow> True | Inl e \<Rightarrow> False)"

definition measurement_int :: "json \<Rightarrow> int" where
  "measurement_int m = (case measurement_value m of Inr n \<Rightarrow> n | Inl e \<Rightarrow> 0)"

text \<open>
  The race counts the specification describes, read off a results section with no
  exception: under every measure titled "Race (NIH/OMB)", for every category of the first
  class that has a non-empty title, in document order, the sum of the converted
  measurement values under the key of the title (a later category with the same key
  replaces an earlier one).
\<close>

definition the_json :: "py_error + json \<Rightarrow> json" where
  "the_json r = (case r of Inr v \<Rightarrow> v | Inl e \<Rightarrow> JNull)"

definition the_list :: "py_error + json list \<Rightarrow> json list" where
  "the_list r = (case r of Inr xs \<Rightarrow> xs | Inl e \<Rightarrow> [])"

definition spec_race_category :: "pydict \<Rightarrow> json \<Rightarrow> pydict" where
  "spec_race_category rd cat =
     (case the_json (py_get cat ''title'' JNull) of
        JStr t \<Rightarrow>
          if t = [] then rd
          else AList.update (race_key t)
                 (JInt (sum_list (map measurement_int
                    (the_list (py_iter (the_json (py_get cat ''measurements'' (JList []))))))))
                 rd
      | _ \<Rightarrow> rd)"

definition spec_race_measure :: "pydict \<Rightarrow> json \<Rightarrow> pydict" where
  "spec_race_measure rd msr =
     (if the_json (py_get msr ''title'' JNull) = JStr ''Race (NIH/OMB)'' then
        fold (\<lambda>cat rd. spec_race_category rd cat)
          (the_list (py_iter (the_json (py_get
             (the_json (py_index0 (the_json (py_get msr ''classes'' (JList [JObj []])))))
             ''categories'' (JList [])))))
          rd
      else rd)"

definition spec_race_data :: "json \<Rightarrow> pydict" where
  "spec_race_data results_section =
     fold (\<lambda>msr rd. spec_race_measure rd msr)
       (the_list (py_iter (the_json (py_get
          (the_json (py_get results_section ''baselineCharacteristicsModule'' (JObj [])))
          ''measures'' (JList [])))))
       []"

text \<open>A study with one United States facility whose inclusion sentence names no skin type.\<close>

definition clinic_location :: json where
  "clinic_location = JObj [(''facility'', JStr ''Main Clinic''), (''city'', JStr ''Boston''),
     (''state'', JStr ''Massachusetts''), (''zip'', JStr ''02115''),
     (''country'', JStr ''United States''),
     (''geoPoint'', JObj [(''lat'', JInt 42), (''lon'', JInt (- 71))])]"

definition unparsed_study :: json where
  "unparsed_study = JObj [(''protocolSection'', JObj [
      (''identificationModule'', JObj [(''nctId'', JStr ''NCT00000001'')]),
      (''eligibilityModule'',
         JObj [(''eligibilityCriteria'', JStr ''Fitzpatrick skin type documented'')]),
      (''contactsLocationsModule'', JObj [(''locations'', JList [clinic_location])])])]"

text \<open>A study with race results; the measurement values are the parameter.\<close>

definition race_category_record :: "json list \<Rightarrow> json" where
  "race_category_record ms =
     JObj [(''title'', JStr ''Black or African American''), (''measurements'', JList ms)]"

definition race_measure_record :: "json list \<Rightarrow> json" where
  "race_measure_record ms =
     JObj [(''title'', JStr ''Race (NIH/OMB)''),
           (''classes'', JList [JObj [(''categories'', JList [race_category_record ms])]])]"

definition race_results_section :: "json list \<Rightarrow> json" where
  "race_results_section ms =
     JObj [(''baselineCharacteristicsModule'', JObj [(''measures'', JList [race_measure_record ms])])]"

definition race_protocol :: json where
  "race_protocol = JObj [(''identificationModule'', JObj [(''nctId'', JStr ''NCT00000002'')]),
      (''contactsLocationsModule'', JObj [(''locations'', JList [clinic_location])])]"

definition race_study :: "json list \<Rightarrow> json" where
  "race_study ms =
     JObj [(''protocolSection'', race_protocol), (''resultsSection'', race_results_section ms)]"

text \<open>Rows for the geocoding stage and an API that always fails.\<close>

definition clinic_row :: "(int, unit) facility_row" where
  "clinic_row = \<lparr>facility = CStr ''Main Clinic'', city = CStr ''Boston'',
     state = CStr ''Massachusetts'', zip_code = CStr ''02115'',
     latitude = Some 42, longitude = Some (- 71), other_columns = ()\<rparr>"

definition site_row :: "(int, unit) facility_row" where
  "site_row = \<lparr>facility = CStr ''Research Site'', city = CStr ''Boston'',
     state = CStr ''Massachusetts'', zip_code = CNaN,
     latitude = Some 40, longitude = Some (- 70), other_columns = ()\<rparr>"

definition failing_api :: "int places_api" where
  "failing_api n q = ApiError"

definition one_place_api :: "int places_api" where
  "one_place_api n q = Results [\<lparr>name = Some ''Main Clinic Boston'', lat = Some 1, lng = Some 2\<rparr>]"

section \<open>Properties of the matcher\<close>

lemma first_match_mem:
  "first_match ic r t is = Some (i, j, gs) \<Longrightarrow> (j, gs) \<in> set (rm ic r t (i, []))"
  by (induction "is") (auto split: list.splits)


subsection \<open>Characters outside ASCII\<close>

text \<open>
  A no-break space (U+00A0) is white space for \<^verbatim>\<open>\s\<close> and for \<^verbatim>\<open>int\<close>; a Latin-1 letter such as
  U+00E9 is a word character, so there is no word boundary between it and a numeral that follows it.
\<close>

lemma range_pattern_no_break_space:
  "re_search True range_pattern (lower (''ii'' @ [CHR 0xA0] @ ''to'' @ [CHR 0xA0] @ ''iv''))
     = Some (0, 8, [''ii'', ''iv''])"
  by code_simp

lemma no_word_boundary_after_letter:
  "re_search True range_pattern (lower (CHR 0xE9 # ''i-v'')) = None
   \<and> re_findall True valid_numeral_pattern (lower (CHR 0xE9 # ''i-v'')) = [''v'']
   \<and> re_findall True valid_numeral_pattern (lower (CHR 0xE9 # ''i'')) = []"
  by code_simp

lemma scores_no_break_space:
  "label_of (extract_and_standardize_scores (JStr (''ii'' @ [CHR 0xA0] @ ''to'' @ [CHR 0xA0] @ ''iv'')))
     = Some (JStr ''II-IV'')"
  by code_simp

lemma scores_after_letter:
  "label_of (extract_and_standardize_scores (JStr (CHR 0xE9 # ''i-v''))) = Some (JStr ''V'')
   \<and> label_of (extract_and_standardize_scores (JStr (CHR 0xE9 # ''i''))) = Some (JStr ''Not Specified'')"
  by code_simp

lemma int_strips_no_break_space:
  "py_int_str (CHR 0xA0 # ''12'') = Inr 12 \<and> py_int_str (''12'' @ [CHR 0x85]) = Inr 12
   \<and> py_int_str (CHR 0x1F # ''12'') = Inl ValueError"
  by code_simp

section \<open>Properties of the classifier\<close>

subsection \<open>Characters and the numeral patterns\<close>

lemma upper_lower_char: "upper_char (lower_char c) = upper_char c"
  unfolding lower_char_def upper_char_def upper_letters_def lower_letters_def
  by simp

lemma is_digit_lower_char: "is_digit (lower_char c) = is_digit c"
  unfolding lower_char_def is_digit_def digit_chars_def upper_letters_def lower_letters_def
  by simp

lemma lower_char_digit:
  assumes "is_digit c"
  shows "lower_char c = c"
proof -
  from assms have "c = CHR ''0'' \<or> c = CHR ''1'' \<or> c = CHR ''2'' \<or> c = CHR ''3'' \<or> c = CHR ''4''
      \<or> c = CHR ''5'' \<or> c = CHR ''6'' \<or> c = CHR ''7'' \<or> c = CHR ''8'' \<or> c = CHR ''9''"
    by (simp add: is_digit_def digit_chars_def)
  then show ?thesis
    by (elim disjE) (simp_all add: lower_char_def upper_letters_def lower_letters_def)
qed

lemma upper_lower: "upper (lower s) = upper s"
  by (simp add: upper_def lower_def upper_lower_char)

lemma isdigit_lower: "isdigit (lower s) = isdigit s"
  by (simp add: isdigit_def lower_def list_all_iff is_digit_lower_char)

lemma lower_isdigit: "isdigit s \<Longrightarrow> lower s = s"
  by (simp add: isdigit_def lower_def list_all_iff lower_char_digit map_idI)

lemma to_int_lower_eq:
  assumes "lower g = lower p"
  shows "to_int g = to_int p"
proof -
  have u: "upper g = upper p"
    using assms upper_lower by metis
  have d: "isdigit g = isdigit p"
    using assms isdigit_lower by metis
  show ?thesis
  proof (cases "isdigit g")
    case True
    with d assms have "g = p" by (simp add: lower_isdigit)
    then show ?thesis by simp
  next
    case False
    with d u show ?thesis by (simp add: to_int_def Let_def)
  qed
qed

lemma to_int_tokens:
  "to_int ''vi'' = Some 6" "to_int ''v'' = Some 5" "to_int ''iv'' = Some 4"
  "to_int ''iii'' = Some 3" "to_int ''ii'' = Some 2" "to_int ''i'' = Some 1"
  "to_int ''l'' = Some 1" "to_int ''1'' = Some 1" "to_int ''2'' = Some 2"
  "to_int ''3'' = Some 3" "to_int ''4'' = Some 4" "to_int ''5'' = Some 5"
  "to_int ''6'' = Some 6"
  by code_simp+

lemma lit_numeral_ok:
  assumes "lit_match True p s" and "numeral_ok p" and "lower p = p"
  shows "numeral_ok (take (length p) s)"
proof -
  from assms(1) have "lower (take (length p) s) = lower p"
    by (simp add: lit_match_def)
  then have "to_int (take (length p) s) = to_int p"
    by (rule to_int_lower_eq)
  with assms(2) show ?thesis by (simp add: numeral_ok_def)
qed

lemma numeral_ok_tokens:
  "numeral_ok ''vi''" "numeral_ok ''v''" "numeral_ok ''iv''" "numeral_ok ''iii''"
  "numeral_ok ''ii''" "numeral_ok ''i''" "numeral_ok ''l''"
  "numeral_ok ''1''" "numeral_ok ''2''" "numeral_ok ''3''" "numeral_ok ''4''"
  "numeral_ok ''5''" "numeral_ok ''6''"
  by (simp_all add: numeral_ok_def to_int_tokens)

lemma rm_Seq_mem:
  "st' \<in> set (rm ic (Seq r1 r2) t st) \<longleftrightarrow> (\<exists>m \<in> set (rm ic r1 t st). st' \<in> set (rm ic r2 t m))"
  by simp

lemma rm_Alt_mem:
  "st' \<in> set (rm ic (Alt r1 r2) t st) \<longleftrightarrow> st' \<in> set (rm ic r1 t st) \<or> st' \<in> set (rm ic r2 t st)"
  by simp

lemma rm_Group_mem:
  "(j, gs') \<in> set (rm ic (Group r) t (i, gs)) \<longleftrightarrow>
     (\<exists>gi. (j, gi) \<in> set (rm ic r t (i, gs)) \<and> gs' = gi @ [take (j - i) (drop i t)])"
  by auto

lemma rm_WordB_mem:
  "(j, gs') \<in> set (rm ic WordB t (i, gs)) \<longleftrightarrow> j = i \<and> gs' = gs \<and> word_boundary t i"
  by auto

lemma rm_Lit_mem:
  "(j, gs') \<in> set (rm ic (Lit p) t (i, gs)) \<longleftrightarrow>
     j = i + length p \<and> gs' = gs \<and> lit_match ic p (drop i t)"
  by auto

lemma rm_Set_mem:
  "(j, gs') \<in> set (rm ic (Set cs) t (i, gs)) \<longleftrightarrow>
     j = Suc i \<and> gs' = gs \<and> i < length t \<and> t ! i \<in> set cs"
  by auto

lemma rm_Star_mem:
  "(j, gs') \<in> set (rm ic (Star cs) t (i, gs)) \<Longrightarrow> gs' = gs \<and> i \<le> j"
  by auto

lemma rm_lit_numeral:
  assumes "(j, gs') \<in> set (rm True (Lit p) t (i, gs))" and "numeral_ok p" and "lower p = p"
  shows "gs' = gs \<and> numeral_ok (take (j - i) (drop i t))"
  using assms unfolding rm_Lit_mem by (simp add: lit_numeral_ok)

lemma rm_set_numeral:
  assumes "(j, gs') \<in> set (rm True (Set ''123456'') t (i, gs))"
  shows "gs' = gs \<and> numeral_ok (take (j - i) (drop i t))"
  using assms unfolding rm_Set_mem
  by (auto simp: take_Suc_conv_app_nth numeral_ok_tokens)

lemma lower_tokens:
  "lower ''vi'' = ''vi''" "lower ''v'' = ''v''" "lower ''iv'' = ''iv''"
  "lower ''iii'' = ''iii''" "lower ''ii'' = ''ii''" "lower ''i'' = ''i''" "lower ''l'' = ''l''"
  by code_simp+

lemma rm_numeral_alts:
  assumes "(j, gs') \<in> set (rm True numeral_alts t (i, gs))"
  shows "gs' = gs \<and> numeral_ok (take (j - i) (drop i t))"
proof -
  from assms consider
      "(j, gs') \<in> set (rm True (Lit ''vi'') t (i, gs))"
    | "(j, gs') \<in> set (rm True (Lit ''v'') t (i, gs))"
    | "(j, gs') \<in> set (rm True (Lit ''iv'') t (i, gs))"
    | "(j, gs') \<in> set (rm True (Lit ''iii'') t (i, gs))"
    | "(j, gs') \<in> set (rm True (Lit ''ii'') t (i, gs))"
    | "(j, gs') \<in> set (rm True (Lit ''i'') t (i, gs))"
    | "(j, gs') \<in> set (rm True (Lit ''l'') t (i, gs))"
    | "(j, gs') \<in> set (rm True (Set ''123456'') t (i, gs))"
    unfolding numeral_alts_def rm_Alt_mem by blast
  then show ?thesis
  proof cases
    case 1 then show ?thesis by (rule rm_lit_numeral) (rule numeral_ok_tokens lower_tokens)+
  next
    case 2 then show ?thesis by (rule rm_lit_numeral) (rule numeral_ok_tokens lower_tokens)+
  next
    case 3 then show ?thesis by (rule rm_lit_numeral) (rule numeral_ok_tokens lower_tokens)+
  next
    case 4 then show ?thesis by (rule rm_lit_numeral) (rule numeral_ok_tokens lower_tokens)+
  next
    case 5 then show ?thesis by (rule rm_lit_numeral) (rule numeral_ok_tokens lower_tokens)+
  next
    case 6 then show ?thesis by (rule rm_lit_numeral) (rule numeral_ok_tokens lower_tokens)+
  next
    case 7 then show ?thesis by (rule rm_lit_numeral) (rule numeral_ok_tokens lower_tokens)+
  next
    case 8 then show ?thesis by (rule rm_set_numeral)
  qed
qed

lemma rm_numeral:
  assumes "(j, gs') \<in> set (rm True valid_numeral_pattern t (i, gs))"
  shows "\<exists>g. gs' = gs @ [g] \<and> numeral_ok g"
proof -
  from assms obtain st1 st2 where
    a: "st1 \<in> set (rm True WordB t (i, gs))" and
    b: "st2 \<in> set (rm True (Group numeral_alts) t st1)" and
    c: "(j, gs') \<in> set (rm True WordB t st2)"
    unfolding valid_numeral_pattern_def rm_Seq_mem by blast
  obtain i1 g1 where st1: "st1 = (i1, g1)" by (cases st1)
  from a[unfolded st1 rm_WordB_mem] st1 have st1': "st1 = (i, gs)" by simp
  obtain k gk where st2: "st2 = (k, gk)" by (cases st2)
  from c[unfolded st2 rm_WordB_mem] have e: "j = k" "gs' = gk" by simp_all
  from b[unfolded st1' st2 rm_Group_mem] obtain gi where
    gi: "(k, gi) \<in> set (rm True numeral_alts t (i, gs))" and gk: "gk = gi @ [take (k - i) (drop i t)]"
    by blast
  from rm_numeral_alts[OF gi] gk e show ?thesis by simp
qed

lemma rm_sep:
  assumes "(j, gs') \<in> set (rm True (Alt (Lit ''-'') (Alt (Lit ''to'') (Lit ''through''))) t (i, gs))"
  shows "gs' = gs"
  using assms unfolding rm_Alt_mem rm_Lit_mem by blast

lemma rm_range:
  assumes "(j, gs') \<in> set (rm True range_pattern t (i, gs))"
  shows "\<exists>a b. gs' = gs @ [a, b] \<and> numeral_ok a \<and> numeral_ok b"
proof -
  from assms obtain s1 s2 s3 s4 where
    a: "s1 \<in> set (rm True valid_numeral_pattern t (i, gs))" and
    b: "s2 \<in> set (rm True (Star space_chars) t s1)" and
    c: "s3 \<in> set (rm True (Alt (Lit ''-'') (Alt (Lit ''to'') (Lit ''through''))) t s2)" and
    d: "s4 \<in> set (rm True (Star space_chars) t s3)" and
    e: "(j, gs') \<in> set (rm True valid_numeral_pattern t s4)"
    unfolding range_pattern_def rm_Seq_mem by blast
  obtain i1 g1 where s1: "s1 = (i1, g1)" by (cases s1)
  obtain i2 g2 where s2: "s2 = (i2, g2)" by (cases s2)
  obtain i3 g3 where s3: "s3 = (i3, g3)" by (cases s3)
  obtain i4 g4 where s4: "s4 = (i4, g4)" by (cases s4)
  from rm_numeral[OF a[unfolded s1]] obtain x where x: "g1 = gs @ [x]" "numeral_ok x" by blast
  from rm_Star_mem[OF b[unfolded s1 s2]] have g2: "g2 = g1" by simp
  from rm_sep[OF c[unfolded s2 s3]] have g3: "g3 = g2" .
  from rm_Star_mem[OF d[unfolded s3 s4]] have g4: "g4 = g3" by simp
  from rm_numeral[OF e[unfolded s4]] obtain y where y: "gs' = g4 @ [y]" "numeral_ok y" by blast
  from x y g2 g3 g4 show ?thesis by simp
qed

lemma range_groups:
  assumes "re_search True range_pattern t = Some (i, j, gs)"
  shows "\<exists>a b. gs = [a, b] \<and> numeral_ok a \<and> numeral_ok b"
proof -
  from assms have "(j, gs) \<in> set (rm True range_pattern t (i, []))"
    unfolding re_search_def by (rule first_match_mem)
  from rm_range[OF this] show ?thesis by simp
qed

lemma scan_mem:
  "(i, j, gs) \<in> set (scan ic r t is lim) \<Longrightarrow> (j, gs) \<in> set (rm ic r t (i, []))"
  by (induction "is" arbitrary: lim) (auto split: list.splits if_splits)

lemma findall_numeral_ok:
  assumes "g \<in> set (re_findall True valid_numeral_pattern t)"
  shows "numeral_ok g"
proof -
  from assms obtain i j gs where m: "(i, j, gs) \<in> set (re_finditer True valid_numeral_pattern t)"
    and g: "g = (case gs of [] \<Rightarrow> take (j - i) (drop i t) | g # _ \<Rightarrow> g)"
    unfolding re_findall_def by auto
  from m have "(j, gs) \<in> set (rm True valid_numeral_pattern t (i, []))"
    unfolding re_finditer_def by (rule scan_mem)
  from rm_numeral[OF this] obtain x where "gs = [x]" "numeral_ok x" by auto
  with g show ?thesis by simp
qed

lemma label_default: "label_of default_result = Some (JStr ''Not Specified'')"
  by (simp add: label_of_def default_result_def)

lemma flags_default: "flags_of default_result = flags_where (\<lambda>k. False)"
  by (simp add: flags_of_def flags_where_def skin_types_def skin_type_cols_def default_result_def)

lemma label_update: "label_of (AList.update ''extracted_score'' v d) = Some v"
  by (simp add: label_of_def update_conv')

lemma flags_update_label: "flags_of (AList.update ''extracted_score'' v d) = flags_of d"
  by (simp add: flags_of_def skin_type_cols_def update_conv')

lemma label_set_flag: "label_of (set_flag r d) = label_of d"
  by (simp add: label_of_def set_flag_def update_conv')

lemma extract_non_str: "\<not> isinstance_str v \<Longrightarrow> extract_and_standardize_scores v = []"
  by (cases v) (simp_all add: isinstance_str_def extract_and_standardize_scores_def)

lemma all_result:
  "label_of (AList.update ''extracted_score'' (JStr ''All'')
      (map (\<lambda>(k, v). if starts_with k ''Type_'' then (k, JInt 1) else (k, v)) default_result))
     = Some (JStr ''All'')"
  "flags_of (AList.update ''extracted_score'' (JStr ''All'')
      (map (\<lambda>(k, v). if starts_with k ''Type_'' then (k, JInt 1) else (k, v)) default_result))
     = flags_where (\<lambda>k. True)"
  by code_simp+


lemma range_fill_flags_cases:
  "flags_of (range_fill 1 2 default_result) = flags_where (\<lambda>k. 1 \<le> k \<and> k \<le> 2)"
  "flags_of (range_fill 1 3 default_result) = flags_where (\<lambda>k. 1 \<le> k \<and> k \<le> 3)"
  "flags_of (range_fill 1 4 default_result) = flags_where (\<lambda>k. 1 \<le> k \<and> k \<le> 4)"
  "flags_of (range_fill 1 5 default_result) = flags_where (\<lambda>k. 1 \<le> k \<and> k \<le> 5)"
  "flags_of (range_fill 1 6 default_result) = flags_where (\<lambda>k. 1 \<le> k \<and> k \<le> 6)"
  "flags_of (range_fill 2 3 default_result) = flags_where (\<lambda>k. 2 \<le> k \<and> k \<le> 3)"
  "flags_of (range_fill 2 4 default_result) = flags_where (\<lambda>k. 2 \<le> k \<and> k \<le> 4)"
  "flags_of (range_fill 2 5 default_result) = flags_where (\<lambda>k. 2 \<le> k \<and> k \<le> 5)"
  "flags_of (range_fill 2 6 default_result) = flags_where (\<lambda>k. 2 \<le> k \<and> k \<le> 6)"
  "flags_of (range_fill 3 4 default_result) = flags_where (\<lambda>k. 3 \<le> k \<and> k \<le> 4)"
  "flags_of (range_fill 3 5 default_result) = flags_where (\<lambda>k. 3 \<le> k \<and> k \<le> 5)"
  "flags_of (range_fill 3 6 default_result) = flags_where (\<lambda>k. 3 \<le> k \<and> k \<le> 6)"
  "flags_of (range_fill 4 5 default_result) = flags_where (\<lambda>k. 4 \<le> k \<and> k \<le> 5)"
  "flags_of (range_fill 4 6 default_result) = flags_where (\<lambda>k. 4 \<le> k \<and> k \<le> 6)"
  "flags_of (range_fill 5 6 default_result) = flags_where (\<lambda>k. 5 \<le> k \<and> k \<le> 6)"
  by code_simp+

lemma range_fill_label:
  "label_of (range_fill m n d) = Some (JStr (roman_or_empty m @ ''-'' @ roman_or_empty n))"
  by (simp add: range_fill_def label_update)

lemma range_fill_flags:
  assumes "1 \<le> m" and "m < n" and "n \<le> 6"
  shows "flags_of (range_fill m n default_result) = flags_where (\<lambda>k. m \<le> k \<and> k \<le> n)"
proof -
  from assms have "m = 1 \<or> m = 2 \<or> m = 3 \<or> m = 4 \<or> m = 5" by arith
  moreover from assms have "n = 2 \<or> n = 3 \<or> n = 4 \<or> n = 5 \<or> n = 6" by arith
  ultimately show ?thesis
    using assms(2) by (elim disjE) (simp_all add: range_fill_flags_cases)
qed


lemma roman_values:
  "roman_or_empty 1 = ''I''" "roman_or_empty 2 = ''II''" "roman_or_empty 3 = ''III''"
  "roman_or_empty 4 = ''IV''" "roman_or_empty 5 = ''V''" "roman_or_empty 6 = ''VI''"
  by code_simp+

lemma to_roman_values:
  "map_of to_roman_map 1 = Some ''I''" "map_of to_roman_map 2 = Some ''II''"
  "map_of to_roman_map 3 = Some ''III''" "map_of to_roman_map 4 = Some ''IV''"
  "map_of to_roman_map 5 = Some ''V''" "map_of to_roman_map 6 = Some ''VI''"
  by code_simp+

lemma skin_type_cases:
  assumes "1 \<le> k" and "k \<le> 6"
  shows "k = 1 \<or> k = 2 \<or> k = 3 \<or> k = 4 \<or> k = 5 \<or> (k::int) = 6"
  using assms by arith

lemma type_key_inj:
  assumes "1 \<le> k" "k \<le> 6" "1 \<le> j" "j \<le> 6"
  shows "roman_or_empty k = roman_or_empty j \<longleftrightarrow> k = j"
  using skin_type_cases[OF assms(1,2)] skin_type_cases[OF assms(3,4)]
  by (elim disjE) (simp_all add: roman_values)

lemma set_map_filter: "set (List.map_filter f xs) = {y. \<exists>x \<in> set xs. f x = Some y}"
  by (induction xs) (auto simp: List.map_filter_simps split: option.splits)

lemma found_scores_range:
  assumes "\<forall>g \<in> set found. numeral_ok g"
  shows "set (List.map_filter to_int found) \<subseteq> {1..6}"
  using assms by (auto simp: set_map_filter numeral_ok_def)

lemma sort_remdups_filter:
  assumes "set ns \<subseteq> {1..6}"
  shows "sort (remdups ns) = filter (\<lambda>k. k \<in> set ns) skin_types"
proof (rule sorted_distinct_set_unique)
  show "sorted (sort (remdups ns))" by simp
  show "distinct (sort (remdups ns))" by simp
  show "sorted (filter (\<lambda>k. k \<in> set ns) skin_types)"
    by (rule sorted_wrt_filter) (simp add: skin_types_def)
  show "distinct (filter (\<lambda>k. k \<in> set ns) skin_types)"
    by (rule distinct_filter) (simp add: skin_types_def)
  have "set skin_types = {1..6}"
    by (auto simp: skin_types_def dest: skin_type_cases)
  with assms show "set (sort (remdups ns)) = set (filter (\<lambda>k. k \<in> set ns) skin_types)"
    by auto
qed

lemma enum_scores_eq:
  assumes "\<forall>g \<in> set found. numeral_ok g"
  shows "enum_scores found = filter (\<lambda>k. k \<in> set (List.map_filter to_int found)) skin_types"
  unfolding enum_scores_def by (rule sort_remdups_filter) (rule found_scores_range[OF assms])

lemma enum_romans_eq:
  assumes "set ks \<subseteq> {1..6}"
  shows "enum_romans ks = map roman_or_empty ks"
  using assms
proof (induction ks)
  case Nil
  then show ?case by (simp add: enum_romans_def List.map_filter_simps)
next
  case (Cons k ks)
  then have "1 \<le> k" "k \<le> 6" by simp_all
  from skin_type_cases[OF this] have
    "(case map_of to_roman_map k of Some r \<Rightarrow> if r \<noteq> [] then Some r else None | None \<Rightarrow> None)
       = Some (roman_or_empty k)"
    by (elim disjE) (simp_all add: to_roman_values roman_values)
  with Cons show ?case by (simp add: enum_romans_def List.map_filter_simps)
qed

lemma map_of_fold_set_flag:
  "map_of (fold set_flag rs d) key =
     (if key \<in> (\<lambda>r. ''Type_'' @ r) ` set rs then Some (JInt 1) else map_of d key)"
  by (induction rs arbitrary: d) (auto simp: set_flag_def update_conv')

lemma label_fold_set_flag: "label_of (fold set_flag rs d) = label_of d"
  by (induction rs arbitrary: d) (simp_all add: label_set_flag)

lemma flag_lookup_enum:
  assumes "set ks \<subseteq> {1..6}" and "1 \<le> j" and "j \<le> 6"
  shows "map_of (fold set_flag (map roman_or_empty ks) default_result) (''Type_'' @ roman_or_empty j)
     = Some (JInt (if j \<in> set ks then 1 else 0))"
proof -
  have "(''Type_'' @ roman_or_empty j \<in> (\<lambda>r. ''Type_'' @ r) ` set (map roman_or_empty ks))
      \<longleftrightarrow> j \<in> set ks"
  proof
    assume "''Type_'' @ roman_or_empty j \<in> (\<lambda>r. ''Type_'' @ r) ` set (map roman_or_empty ks)"
    then obtain k where k: "k \<in> set ks" "roman_or_empty j = roman_or_empty k" by auto
    with assms have "1 \<le> k" "k \<le> 6" by auto
    with k assms show "j \<in> set ks" by (simp add: type_key_inj)
  next
    assume "j \<in> set ks"
    then show "''Type_'' @ roman_or_empty j \<in> (\<lambda>r. ''Type_'' @ r) ` set (map roman_or_empty ks)"
      by simp
  qed
  moreover have "map_of default_result (''Type_'' @ roman_or_empty j) = Some (JInt 0)"
    using skin_type_cases[OF assms(2,3)]
    by (elim disjE) (simp_all add: roman_values default_result_def)
  ultimately show ?thesis by (simp add: map_of_fold_set_flag)
qed

lemma flags_enum:
  assumes "set ks \<subseteq> {1..6}"
  shows "flags_of (fold set_flag (map roman_or_empty ks) default_result) = flags_where (\<lambda>k. k \<in> set ks)"
  using flag_lookup_enum[OF assms, of 1] flag_lookup_enum[OF assms, of 2]
    flag_lookup_enum[OF assms, of 3] flag_lookup_enum[OF assms, of 4]
    flag_lookup_enum[OF assms, of 5] flag_lookup_enum[OF assms, of 6]
  by (simp add: flags_of_def flags_where_def skin_type_cols_def skin_types_def roman_values)

lemma enum_branch_result:
  assumes "\<forall>g \<in> set found. numeral_ok g"
  shows "label_of (enum_branch found default_result) =
           Some (JStr (if enum_scores found = [] then ''Not Specified''
                       else join '', '' (map roman_or_empty (enum_scores found))))"
    and "flags_of (enum_branch found default_result) = flags_where (\<lambda>k. k \<in> set (enum_scores found))"
proof -
  have sub: "set (enum_scores found) \<subseteq> {1..6}"
    using found_scores_range[OF assms] by (simp add: enum_scores_def)
  note r = enum_romans_eq[OF sub]
  show "label_of (enum_branch found default_result) =
           Some (JStr (if enum_scores found = [] then ''Not Specified''
                       else join '', '' (map roman_or_empty (enum_scores found))))"
    by (simp add: enum_branch_def r Let_def label_update label_fold_set_flag label_default)
  show "flags_of (enum_branch found default_result) = flags_where (\<lambda>k. k \<in> set (enum_scores found))"
    by (simp add: enum_branch_def r Let_def flags_update_label flags_enum[OF sub] flags_default)
qed

lemma join_roman_not_All:
  assumes "ks \<noteq> []" and "set ks \<subseteq> {1..6}"
  shows "join '', '' (map roman_or_empty ks) \<noteq> ''All''"
proof -
  from assms(1) obtain k rest where ks: "ks = k # rest" by (cases ks) auto
  with assms(2) have "1 \<le> k" "k \<le> 6" by simp_all
  from skin_type_cases[OF this] have "\<exists>c cs. roman_or_empty k = c # cs \<and> c \<noteq> CHR ''A''"
    by (elim disjE) (simp_all add: roman_values)
  then obtain c cs where c: "roman_or_empty k = c # cs" "c \<noteq> CHR ''A''" by blast
  have "join '', '' (map roman_or_empty ks) = c # tl (join '', '' (map roman_or_empty ks))"
    using ks c by (cases rest) simp_all
  with c(2) show ?thesis by (metis list.inject)
qed

lemma range_label_not_All: "x @ CHR ''-'' # y \<noteq> ''All''"
proof
  assume "x @ CHR ''-'' # y = ''All''"
  moreover have "CHR ''-'' \<in> set (x @ CHR ''-'' # y)" by simp
  ultimately have "CHR ''-'' \<in> set ''All''" by (simp only:)
  then show False by simp
qed

lemma extract_wrinkle:
  "contains ''wrinkle'' (lower s) \<Longrightarrow>
     extract_and_standardize_scores (JStr s) =
       AList.update ''extracted_score'' (JStr ''Not a Skin Type Score'') default_result"
  by (simp add: extract_and_standardize_scores_def)

lemma extract_all:
  assumes "\<not> contains ''wrinkle'' (lower s)"
    and "contains ''all'' (lower s) \<or> contains ''any'' (lower s)"
  shows "extract_and_standardize_scores (JStr s) =
     AList.update ''extracted_score'' (JStr ''All'')
       (map (\<lambda>(k, v). if starts_with k ''Type_'' then (k, JInt 1) else (k, v)) default_result)"
  using assms by (simp add: extract_and_standardize_scores_def)

lemma extract_range:
  assumes "\<not> contains ''wrinkle'' (lower s)"
    and "\<not> contains ''all'' (lower s)" and "\<not> contains ''any'' (lower s)"
    and "re_search True range_pattern (lower s) = Some (i, j, [a, b])"
  shows "extract_and_standardize_scores (JStr s) = range_branch a b default_result"
  using assms by (simp add: extract_and_standardize_scores_def)

lemma extract_enum:
  assumes "\<not> contains ''wrinkle'' (lower s)"
    and "\<not> contains ''all'' (lower s)" and "\<not> contains ''any'' (lower s)"
    and "re_search True range_pattern (lower s) = None"
  shows "extract_and_standardize_scores (JStr s) =
     enum_branch (re_findall True valid_numeral_pattern (lower s)) default_result"
  using assms by (simp add: extract_and_standardize_scores_def)

text \<open>
  Claim C10. For every input that is not a string, \<^verbatim>\<open>extract_and_standardize_scores\<close>
  returns the empty dict: it holds no \<^verbatim>\<open>extracted_score\<close> label and none of the six
  \<^verbatim>\<open>Type_\<close> flags.
\<close>

theorem extract_scores_non_string_empty:
  assumes "\<not> isinstance_str v"
  shows "extract_and_standardize_scores v = []
     \<and> label_of (extract_and_standardize_scores v) = None
     \<and> flags_of (extract_and_standardize_scores v) = [None, None, None, None, None, None]"
  using extract_non_str[OF assms]
  by (simp add: label_of_def flags_of_def skin_type_cols_def)

theorem extract_scores_non_string_empty_witness:
  "\<not> isinstance_str (JInt 5) \<and> extract_and_standardize_scores (JInt 5) = []
     \<and> label_of (extract_and_standardize_scores (JInt 5)) = None"
proof -
  have h1: "\<not> isinstance_str (JInt 5)" by (simp add: isinstance_str_def)
  from extract_scores_non_string_empty[OF h1] h1 show ?thesis by blast
qed

text \<open>
  Claim C5. For a sentence without the disqualifying term and without "all"/"any" on which
  the range pattern matches, the two captured numerals convert to integers; when
  start < end the label is the two Roman numerals joined by a hyphen and exactly the flags
  of the integers from start to end are set; when start \<ge> end the result is the initial
  one (label "Not Specified", no flag), and the enumeration is not tried.
\<close>

theorem extract_scores_range:
  assumes "\<not> contains ''wrinkle'' (lower s)"
    and "\<not> contains ''all'' (lower s)" and "\<not> contains ''any'' (lower s)"
    and "re_search True range_pattern (lower s) = Some (i, j, gs)"
  shows "\<exists>start_str end_str start_num end_num.
     gs = [start_str, end_str] \<and> to_int start_str = Some start_num \<and> to_int end_str = Some end_num \<and>
     (if start_num < end_num then
        label_of (extract_and_standardize_scores (JStr s)) =
          Some (JStr (roman_or_empty start_num @ ''-'' @ roman_or_empty end_num)) \<and>
        flags_of (extract_and_standardize_scores (JStr s)) =
          flags_where (\<lambda>k. start_num \<le> k \<and> k \<le> end_num)
      else extract_and_standardize_scores (JStr s) = default_result)"
proof -
  from range_groups[OF assms(4)] obtain a b m n where
    gs: "gs = [a, b]" and a: "to_int a = Some m" "1 \<le> m" "m \<le> 6"
    and b: "to_int b = Some n" "1 \<le> n" "n \<le> 6"
    unfolding numeral_ok_def by blast
  have res: "extract_and_standardize_scores (JStr s) = range_branch a b default_result"
    using assms gs by (simp add: extract_range)
  have "if m < n then
        label_of (extract_and_standardize_scores (JStr s)) =
          Some (JStr (roman_or_empty m @ ''-'' @ roman_or_empty n)) \<and>
        flags_of (extract_and_standardize_scores (JStr s)) = flags_where (\<lambda>k. m \<le> k \<and> k \<le> n)
      else extract_and_standardize_scores (JStr s) = default_result"
    using a b by (simp add: res range_branch_def range_fill_label range_fill_flags)
  with gs a(1) b(1) show ?thesis by blast
qed

theorem extract_scores_range_witness:
  "extract_and_standardize_scores (JStr ''type iv to ii or v'') = default_result
   \<and> label_of (extract_and_standardize_scores (JStr ''Type II to IV'')) = Some (JStr ''II-IV'')
   \<and> flags_of (extract_and_standardize_scores (JStr ''Type II to IV''))
       = [Some (JInt 0), Some (JInt 1), Some (JInt 1), Some (JInt 1), Some (JInt 0), Some (JInt 0)]"
proof -
  have h1: "\<not> contains ''wrinkle'' (lower ''type iv to ii or v'')"
    and h2: "\<not> contains ''all'' (lower ''type iv to ii or v'')"
    and h3: "\<not> contains ''any'' (lower ''type iv to ii or v'')"
    and h4: "re_search True range_pattern (lower ''type iv to ii or v'') = Some (5, 13, [''iv'', ''ii''])"
    by code_simp+
  have k1: "\<not> contains ''wrinkle'' (lower ''Type II to IV'')"
    and k2: "\<not> contains ''all'' (lower ''Type II to IV'')"
    and k3: "\<not> contains ''any'' (lower ''Type II to IV'')"
    and k4: "re_search True range_pattern (lower ''Type II to IV'') = Some (5, 13, [''ii'', ''iv''])"
    by code_simp+
  from extract_scores_range[OF h1 h2 h3 h4]
  have r1: "extract_and_standardize_scores (JStr ''type iv to ii or v'') = default_result"
    by (auto simp: to_int_tokens)
  from extract_scores_range[OF k1 k2 k3 k4]
  have r2: "label_of (extract_and_standardize_scores (JStr ''Type II to IV'')) = Some (JStr ''II-IV'')
      \<and> flags_of (extract_and_standardize_scores (JStr ''Type II to IV'')) = flags_where (\<lambda>k. 2 \<le> k \<and> k \<le> 4)"
    by (auto simp: to_int_tokens roman_values)
  from r1 r2 show ?thesis by (simp add: flags_where_def skin_types_def)
qed

text \<open>
  Claim C9. For a sentence whose lower-cased text does not contain "wrinkle", the result
  has label "All" with all six flags set if and only if the lower-cased text contains
  "all" or "any" as a substring, inside longer words too.
\<close>

theorem extract_scores_all_any_iff:
  assumes "\<not> contains ''wrinkle'' (lower s)"
  shows "(label_of (extract_and_standardize_scores (JStr s)) = Some (JStr ''All'')
          \<and> flags_of (extract_and_standardize_scores (JStr s)) = flags_where (\<lambda>k. True))
     \<longleftrightarrow> (contains ''all'' (lower s) \<or> contains ''any'' (lower s))"
proof (cases "contains ''all'' (lower s) \<or> contains ''any'' (lower s)")
  case True
  with assms show ?thesis by (simp add: extract_all all_result)
next
  case False
  then have na: "\<not> contains ''all'' (lower s)" "\<not> contains ''any'' (lower s)" by simp_all
  have "label_of (extract_and_standardize_scores (JStr s)) \<noteq> Some (JStr ''All'')"
  proof (cases "re_search True range_pattern (lower s)")
    case None
    let ?found = "re_findall True valid_numeral_pattern (lower s)"
    have ok: "\<forall>g \<in> set ?found. numeral_ok g" by (simp add: findall_numeral_ok)
    have sub: "set (enum_scores ?found) \<subseteq> {1..6}"
      using found_scores_range[OF ok] by (simp add: enum_scores_def)
    show ?thesis
      using join_roman_not_All[OF _ sub]
      by (simp add: extract_enum[OF assms na None] enum_branch_result(1)[OF ok])
  next
    case (Some m)
    obtain i j gs where m: "m = (i, j, gs)" by (cases m)
    from range_groups[OF Some[unfolded m]] obtain a b where gs: "gs = [a, b]" by blast
    have res: "extract_and_standardize_scores (JStr s) = range_branch a b default_result"
      using extract_range[OF assms na] Some m gs by simp
    show ?thesis
      by (simp add: res range_branch_def range_fill_label label_default range_label_not_All
          split: option.splits)
  qed
  with False show ?thesis by simp
qed

theorem extract_scores_all_any_iff_witness:
  "label_of (extract_and_standardize_scores (JStr ''history of smallpox, type I'')) = Some (JStr ''All'')
   \<and> flags_of (extract_and_standardize_scores (JStr ''history of smallpox, type I''))
       = [Some (JInt 1), Some (JInt 1), Some (JInt 1), Some (JInt 1), Some (JInt 1), Some (JInt 1)]
   \<and> \<not> (label_of (extract_and_standardize_scores (JStr ''skin type I'')) = Some (JStr ''All'')
          \<and> flags_of (extract_and_standardize_scores (JStr ''skin type I'')) = flags_where (\<lambda>k. True))"
proof -
  have h: "\<not> contains ''wrinkle'' (lower ''history of smallpox, type I'')"
    and a: "contains ''all'' (lower ''history of smallpox, type I'')"
    by code_simp+
  have k: "\<not> contains ''wrinkle'' (lower ''skin type I'')"
    and n: "\<not> (contains ''all'' (lower ''skin type I'') \<or> contains ''any'' (lower ''skin type I''))"
    by code_simp+
  from extract_scores_all_any_iff[OF h] a extract_scores_all_any_iff[OF k] n
  show ?thesis by (auto simp: flags_where_def skin_types_def)
qed

text \<open>
  Claim C4 says that the enumeration label lists the matched numerals in the order of
  their first appearance. The source sorts the converted scores, so the label is in
  numeric order: "types v and i" gives "I, V", not "V, I".
\<close>

theorem extract_scores_enum_order_counterexample:
  "\<not> contains ''wrinkle'' (lower ''types v and i'')
   \<and> \<not> contains ''all'' (lower ''types v and i'')
   \<and> \<not> contains ''any'' (lower ''types v and i'')
   \<and> re_search True range_pattern (lower ''types v and i'') = None
   \<and> re_findall True valid_numeral_pattern (lower ''types v and i'') = [''v'', ''i'']
   \<and> spec_label_by_appearance [''v'', ''i''] = ''V, I''
   \<and> label_of (extract_and_standardize_scores (JStr ''types v and i'')) = Some (JStr ''I, V'')
   \<and> label_of (extract_and_standardize_scores (JStr ''types v and i'')) \<noteq>
       Some (JStr (spec_label_by_appearance
         (re_findall True valid_numeral_pattern (lower ''types v and i''))))"
  by code_simp

text \<open>
  Claim C4, amended. For a sentence without the disqualifying term, without "all"/"any"
  and on which the range pattern does not match, the label is the comma-joined list of the
  Roman numerals of the matched types in ascending numeric order, duplicates removed
  ("Not Specified" when there is none), and exactly the flags of the matched types are set.
\<close>

theorem extract_scores_enum_numeric_order:
  assumes "\<not> contains ''wrinkle'' (lower s)"
    and "\<not> contains ''all'' (lower s)" and "\<not> contains ''any'' (lower s)"
    and "re_search True range_pattern (lower s) = None"
  shows "let found = re_findall True valid_numeral_pattern (lower s);
             ks = filter (\<lambda>k. k \<in> set (List.map_filter to_int found)) skin_types;
             res = extract_and_standardize_scores (JStr s)
         in label_of res =
              Some (JStr (if ks = [] then ''Not Specified'' else join '', '' (map roman_or_empty ks)))
            \<and> flags_of res = flags_where (\<lambda>k. k \<in> set ks)"
proof -
  let ?found = "re_findall True valid_numeral_pattern (lower s)"
  have ok: "\<forall>g \<in> set ?found. numeral_ok g" by (simp add: findall_numeral_ok)
  have ks: "enum_scores ?found = filter (\<lambda>k. k \<in> set (List.map_filter to_int ?found)) skin_types"
    by (rule enum_scores_eq[OF ok])
  show ?thesis
    unfolding Let_def extract_enum[OF assms] ks[symmetric]
    using enum_branch_result[OF ok] by simp
qed

theorem extract_scores_enum_numeric_order_witness:
  "label_of (extract_and_standardize_scores (JStr ''Types V, III and I, or v'')) = Some (JStr ''I, III, V'')
   \<and> flags_of (extract_and_standardize_scores (JStr ''Types V, III and I, or v''))
       = [Some (JInt 1), Some (JInt 0), Some (JInt 1), Some (JInt 0), Some (JInt 1), Some (JInt 0)]"
proof -
  have h1: "\<not> contains ''wrinkle'' (lower ''Types V, III and I, or v'')"
    and h2: "\<not> contains ''all'' (lower ''Types V, III and I, or v'')"
    and h3: "\<not> contains ''any'' (lower ''Types V, III and I, or v'')"
    and h4: "re_search True range_pattern (lower ''Types V, III and I, or v'') = None"
    by code_simp+
  have f: "re_findall True valid_numeral_pattern (lower ''Types V, III and I, or v'')
      = [''v'', ''iii'', ''i'', ''v'']"
    by code_simp
  have ks: "filter (\<lambda>k. k \<in> set (List.map_filter to_int [''v'', ''iii'', ''i'', ''v''])) skin_types = [1, 3, 5]"
    by code_simp
  from extract_scores_enum_numeric_order[OF h1 h2 h3 h4]
  show ?thesis
    unfolding Let_def f ks by (simp add: roman_values flags_where_def skin_types_def)
qed

section \<open>Properties of the segmenter, the aggregator and the row assembler\<close>

lemma scan_None:
  "first_match ic r t is = None \<Longrightarrow> scan ic r t is lim = []"
  by (induction "is" arbitrary: lim) (simp_all split: list.splits)

lemma scan_Some:
  assumes "\<forall>i \<in> set is. lim \<le> i" and "first_match ic r t is = Some m"
  shows "\<exists>rest. scan ic r t is lim = m # rest"
  using assms
proof (induction "is")
  case Nil
  then show ?case by simp
next
  case (Cons a "is")
  then have a: "\<not> a < lim" by simp
  show ?case
  proof (cases "rm ic r t (a, [])")
    case Nil
    with Cons a show ?thesis by simp
  next
    case (Cons x xs)
    obtain j gs where "x = (j, gs)" by (cases x)
    with Cons Cons.prems(2) a show ?thesis by simp
  qed
qed

lemma finditer_None:
  "re_search ic r t = None \<Longrightarrow> re_finditer ic r t = []"
  unfolding re_finditer_def re_search_def by (rule scan_None)

lemma finditer_Some:
  "re_search ic r t = Some m \<Longrightarrow> \<exists>rest. re_finditer ic r t = m # rest"
  unfolding re_finditer_def re_search_def by (rule scan_Some) simp_all

lemma exclusion_no_groups:
  assumes "re_search True exclusion_pattern t = Some (i, j, gs)"
  shows "gs = []"
proof -
  from assms have "(j, gs) \<in> set (rm True exclusion_pattern t (i, []))"
    unfolding re_search_def
    by (rule first_match_mem)
  then show ?thesis by (auto simp: exclusion_pattern_def split: if_splits)
qed


lemma keyword_sentences_empty: "keyword_sentences k [] e = []"
  by (simp add: keyword_sentences_def)

lemma parse_text_single_marker:
  assumes "length (re_finditer True exclusion_pattern t) \<le> 1"
  shows "parse_text t k = spec_parse_text t k"
proof (cases "re_search True exclusion_pattern t")
  case None
  then have "re_finditer True exclusion_pattern t = []" by (rule finditer_None)
  with None show ?thesis
    by (simp add: parse_text_def spec_parse_text_def re_split_def keyword_sentences_empty)
next
  case (Some m)
  obtain i j gs where m: "m = (i, j, gs)" by (cases m)
  from Some m have gs: "gs = []" by (simp add: exclusion_no_groups)
  from finditer_Some[OF Some] obtain rest where
    r: "re_finditer True exclusion_pattern t = m # rest" by blast
  with assms have "rest = []" by simp
  with r Some m gs show ?thesis
    by (simp add: parse_text_def spec_parse_text_def re_split_def)
qed

text \<open>
  Claim C3 says that every retained sentence from all of the text after the first
  occurrence of "exclusion" is output as an exclusion sentence. \<^verbatim>\<open>re.split\<close> cuts at every
  occurrence and only \<^verbatim>\<open>parts[1]\<close> is read, so the text after a second occurrence is lost.
  On the text below the source returns the inclusion sentence alone, where the segmenter
  of the specification also returns the exclusion sentence of the last part. (With at most
  one occurrence the two agree: lemma \<open>parse_text_single_marker\<close>.)
\<close>

theorem parse_eligibility_second_marker:
  "parse_eligibility_criteria
     (JObj [(''protocolSection'', JObj [(''eligibilityModule'', JObj [(''eligibilityCriteria'',
        JStr ''Fitzpatrick I-III. Exclusion: none. Exclusion of Fitzpatrick VI.'')])])])
     ''fitzpatrick''
     = Inr [\<lparr>sentence = ''Fitzpatrick I-III'', is_exclusion = False\<rparr>]
   \<and> spec_parse_text ''Fitzpatrick I-III. Exclusion: none. Exclusion of Fitzpatrick VI.'' ''fitzpatrick''
     = [\<lparr>sentence = ''Fitzpatrick I-III'', is_exclusion = False\<rparr>,
        \<lparr>sentence = ''Exclusion of Fitzpatrick VI'', is_exclusion = True\<rparr>]"
  by code_simp

lemma py_bind_Inr [simp]: "py_bind (Inr v) f = f v"
  by (simp add: py_bind_def)

lemma py_bind_Inl [simp]: "py_bind (Inl e) f = Inl e"
  by (simp add: py_bind_def)

lemma py_bind_fails: "\<exists>e. m = Inl e \<Longrightarrow> \<exists>e. py_bind m f = Inl e"
  by auto

lemma py_bind_cont_fails:
  assumes "\<And>v. \<exists>e. f v = Inl e"
  shows "\<exists>e. py_bind m f = Inl e"
  using assms by (cases m) simp_all

lemma process_raw_data_drops_unparsed:
  assumes "process_raw_data studies = Inr d"
    and "\<exists>r \<in> set (df_rows d). flag_sum r \<noteq> 0"
  shows "\<forall>r \<in> set (df_rows d). flag_sum r \<noteq> 0"
proof (cases "collect_rows studies")
  case (Inl e)
  with assms(1) show ?thesis by (simp add: process_raw_data_def)
next
  case (Inr p)
  obtain rs ks where p: "p = (rs, ks)" by (cases p)
  show ?thesis
  proof (cases "rs = []")
    case True
    with assms Inr p show ?thesis by (auto simp: process_raw_data_def)
  next
    case False
    define cols0 where "cols0 = first_seen (concat (map (map fst) rs))"
    define cols where "cols = cols0 @ filter (\<lambda>c. c \<notin> set cols0) (first_seen ks)"
    define tab where "tab = map (fill_row cols) rs"
    from assms(1) Inr p False have d: "df_rows d =
        (if filter (\<lambda>r. flag_sum r \<noteq> 0) tab \<noteq> [] then filter (\<lambda>r. flag_sum r \<noteq> 0) tab else tab)"
      by (auto simp: process_raw_data_def Let_def cols0_def cols_def tab_def)
    show ?thesis
    proof (cases "filter (\<lambda>r. flag_sum r \<noteq> 0) tab = []")
      case True
      with d assms(2) show ?thesis by (auto simp: filter_empty_conv)
    next
      case False
      with d show ?thesis by simp
    qed
  qed
qed

text \<open>
  Claim C1 says that every row \<^verbatim>\<open>process_raw_data\<close> returns has a flag sum of at least one,
  also when every assembled row has flag sum zero. The rows are dropped only when some
  row remains (\<^verbatim>\<open>if not df[~unparsed_mask].empty\<close>): for a single study whose inclusion
  sentence names no type, the one row, with label "Not Specified" and flag sum 0, is
  returned. (When some row has a flag set, every returned row has: lemma
  \<open>process_raw_data_drops_unparsed\<close>.)
\<close>

theorem process_raw_data_all_unparsed:
  "(case process_raw_data [unparsed_study] of
      Inl e \<Rightarrow> None
    | Inr d \<Rightarrow> Some (map (\<lambda>r. (map_of r ''nctId'', map_of r ''extracted_score'', flag_sum r))
                       (df_rows d)))
   = Some [(Some (JStr ''NCT00000001''), Some (JStr ''Not Specified''), 0)]"
  by code_simp

lemma race_total_ok:
  "\<forall>m \<in> set ms. convertible m \<Longrightarrow> race_total ms = Inr (\<Sum>m\<leftarrow>ms. measurement_int m)"
  by (induction ms) (auto simp: convertible_def measurement_int_def split: sum.splits)

lemma race_total_fail:
  "m \<in> set ms \<Longrightarrow> \<not> convertible m \<Longrightarrow> \<exists>e. race_total ms = Inl e"
proof (induction ms)
  case Nil
  then show ?case by simp
next
  case (Cons x xs)
  show ?case
  proof (cases "measurement_value x")
    case (Inl e)
    then show ?thesis by simp
  next
    case (Inr n)
    with Cons.prems have "m \<in> set xs" by (auto simp: convertible_def)
    from Cons.IH[OF this Cons.prems(2)] Inr show ?thesis by auto
  qed
qed

lemma race_category_ok:
  assumes "py_get cat ''title'' JNull = Inr (JStr t)" and "t \<noteq> []"
    and "py_get cat ''measurements'' (JList []) = Inr (JList ms)"
    and "\<forall>m \<in> set ms. convertible m"
  shows "race_category rd cat = Inr (AList.update (race_key t) (JInt (\<Sum>m\<leftarrow>ms. measurement_int m)) rd)"
  using assms(1-3) race_total_ok[OF assms(4)]
  by (simp add: race_category_def py_race_key_def)

lemma race_category_fail:
  assumes "py_get cat ''title'' JNull = Inr (JStr t)" and "t \<noteq> []"
    and "py_get cat ''measurements'' (JList []) = Inr (JList ms)"
    and "m \<in> set ms" and "\<not> convertible m"
  shows "\<exists>e. race_category rd cat = Inl e"
  using assms(1-3) race_total_fail[OF assms(4,5)]
  by (auto simp: race_category_def)

lemma race_categories_fail:
  assumes "cat \<in> set cats" and "\<And>rd. \<exists>e. race_category rd cat = Inl e"
  shows "\<exists>e. race_categories rd cats = Inl e"
  using assms(1)
proof (induction cats arbitrary: rd)
  case Nil
  then show ?case by simp
next
  case (Cons x xs)
  show ?case
  proof (cases "race_category rd x")
    case (Inl e)
    then show ?thesis by simp
  next
    case (Inr rd')
    with assms(2)[of rd] have "x \<noteq> cat" by auto
    with Cons.prems have "cat \<in> set xs" by simp
    from Cons.IH[OF this, of rd'] Inr show ?thesis by simp
  qed
qed

lemma race_measure_fail:
  assumes "py_get msr ''title'' JNull = Inr (JStr ''Race (NIH/OMB)'')"
    and "py_get msr ''classes'' (JList [JObj []]) = Inr (JList (cls # others))"
    and "py_get cls ''categories'' (JList []) = Inr (JList cats)"
    and "cat \<in> set cats" and "\<And>rd. \<exists>e. race_category rd cat = Inl e"
  shows "\<exists>e. race_measure rd msr = Inl e"
  using assms(1-3) race_categories_fail[OF assms(4,5), of rd]
  by (simp add: race_measure_def)

lemma race_measures_fail:
  assumes "msr \<in> set msrs" and "\<And>rd. \<exists>e. race_measure rd msr = Inl e"
  shows "\<exists>e. race_measures rd msrs = Inl e"
  using assms(1)
proof (induction msrs arbitrary: rd)
  case Nil
  then show ?case by simp
next
  case (Cons x xs)
  show ?case
  proof (cases "race_measure rd x")
    case (Inl e)
    then show ?thesis by simp
  next
    case (Inr rd')
    with assms(2)[of rd] have "x \<noteq> msr" by auto
    with Cons.prems have "msr \<in> set xs" by simp
    from Cons.IH[OF this, of rd'] Inr show ?thesis by simp
  qed
qed

lemma extract_study_details_race_fail:
  assumes "py_get study ''protocolSection'' (JObj []) = Inr protocol" and "truthy protocol"
    and "py_get study ''resultsSection'' (JObj []) = Inr rs" and "truthy rs"
    and "py_get rs ''baselineCharacteristicsModule'' (JObj []) = Inr bcm"
    and "py_get bcm ''measures'' (JList []) = Inr (JList msrs)"
    and "\<exists>e. race_measures [] msrs = Inl e"
  shows "\<exists>e. extract_study_details study country = Inl e"
proof -
  from assms(5-7) have "\<exists>e. extract_race_data rs = Inl e"
    by (simp add: extract_race_data_def)
  with assms(1-4) show ?thesis
    by (cases "extract_protocol protocol country") (auto simp: extract_study_details_def)
qed

lemma missing_value_zero:
  "map_of kvs ''value'' = None \<Longrightarrow> measurement_value (JObj kvs) = Inr 0"
  by (simp add: measurement_value_def)

text \<open>
  Claim C7 says that a non-numeric measurement value counts as 0 and never propagates as
  a fault. The source applies \<^verbatim>\<open>int\<close> to every value with no handler: the value "NA"
  raises \<^verbatim>\<open>ValueError\<close> out of \<^verbatim>\<open>extract_study_details\<close>.
\<close>

theorem extract_study_details_counterexample:
  "extract_study_details
     (race_study [JObj [(''value'', JStr ''12'')], JObj [(''value'', JStr ''NA'')]])
     ''United States'' = Inl ValueError"
  by code_simp

subsection \<open>What the extraction returns, when it returns\<close>

lemma race_total_Inr:
  "race_total ms = Inr n \<Longrightarrow>
     n = sum_list (map measurement_int ms) \<and> (\<forall>m \<in> set ms. convertible m)"
proof (induction ms arbitrary: n)
  case Nil
  then show ?case by simp
next
  case (Cons m ms)
  from Cons.prems obtain k where k: "measurement_value m = Inr k"
    by (cases "measurement_value m") simp_all
  with Cons.prems obtain total where t: "race_total ms = Inr total" and n: "n = k + total"
    by (cases "race_total ms") auto
  from Cons.IH[OF t] k n show ?case
    by (simp add: measurement_int_def convertible_def)
qed

lemma race_category_Inr:
  assumes "race_category rd cat = Inr rd'"
  shows "rd' = spec_race_category rd cat"
proof -
  from assms obtain title where title: "py_get cat ''title'' JNull = Inr title"
    by (cases "py_get cat ''title'' JNull") (simp_all add: race_category_def)
  show ?thesis
  proof (cases "truthy title")
    case False
    with assms title have "rd' = rd" by (simp add: race_category_def)
    moreover from False have "spec_race_category rd cat = rd"
      by (cases title) (simp_all add: spec_race_category_def the_json_def title)
    ultimately show ?thesis by simp
  next
    case True
    with assms title obtain msv where msv: "py_get cat ''measurements'' (JList []) = Inr msv"
      by (cases "py_get cat ''measurements'' (JList [])") (simp_all add: race_category_def)
    with assms title True obtain ms where ms: "py_iter msv = Inr ms"
      by (cases "py_iter msv") (simp_all add: race_category_def)
    with assms title True msv obtain n where n: "race_total ms = Inr n"
      by (cases "race_total ms") (simp_all add: race_category_def)
    with assms title True msv ms obtain key where key: "py_race_key title = Inr key"
      and rd': "rd' = AList.update key (JInt n) rd"
      by (cases "py_race_key title") (auto simp: race_category_def)
    from key obtain t where t: "title = JStr t" "key = race_key t"
      by (cases title) (simp_all add: py_race_key_def)
    from True t have ne: "t \<noteq> []" by simp
    from race_total_Inr[OF n] have "n = sum_list (map measurement_int ms)" by simp
    with rd' t ne show ?thesis
      by (simp add: spec_race_category_def the_json_def the_list_def title msv ms)
  qed
qed

lemma race_categories_Inr:
  "race_categories rd cats = Inr rd' \<Longrightarrow> rd' = fold (\<lambda>cat rd. spec_race_category rd cat) cats rd"
proof (induction cats arbitrary: rd)
  case Nil
  then show ?case by simp
next
  case (Cons cat cats)
  from Cons.prems obtain rd1 where r: "race_category rd cat = Inr rd1"
    by (cases "race_category rd cat") simp_all
  with Cons.prems have "race_categories rd1 cats = Inr rd'" by simp
  from Cons.IH[OF this] race_category_Inr[OF r] show ?case by simp
qed

lemma race_measure_Inr:
  assumes "race_measure rd msr = Inr rd'"
  shows "rd' = spec_race_measure rd msr"
proof -
  from assms obtain title where title: "py_get msr ''title'' JNull = Inr title"
    by (cases "py_get msr ''title'' JNull") (simp_all add: race_measure_def)
  show ?thesis
  proof (cases "title = JStr ''Race (NIH/OMB)''")
    case False
    with assms title show ?thesis
      by (simp add: race_measure_def spec_race_measure_def the_json_def)
  next
    case True
    with assms title obtain classes where c: "py_get msr ''classes'' (JList [JObj []]) = Inr classes"
      by (cases "py_get msr ''classes'' (JList [JObj []])") (simp_all add: race_measure_def)
    with assms title True obtain cls where cls: "py_index0 classes = Inr cls"
      by (cases "py_index0 classes") (simp_all add: race_measure_def)
    with assms title True c obtain cv where cv: "py_get cls ''categories'' (JList []) = Inr cv"
      by (cases "py_get cls ''categories'' (JList [])") (simp_all add: race_measure_def)
    with assms title True c cls obtain cats where cats: "py_iter cv = Inr cats"
      by (cases "py_iter cv") (simp_all add: race_measure_def)
    with assms title True c cls cv have "race_categories rd cats = Inr rd'"
      by (simp add: race_measure_def)
    from race_categories_Inr[OF this] title True c cls cv cats show ?thesis
      by (simp add: spec_race_measure_def the_json_def the_list_def)
  qed
qed

lemma race_measures_Inr:
  "race_measures rd msrs = Inr rd' \<Longrightarrow> rd' = fold (\<lambda>msr rd. spec_race_measure rd msr) msrs rd"
proof (induction msrs arbitrary: rd)
  case Nil
  then show ?case by simp
next
  case (Cons msr msrs)
  from Cons.prems obtain rd1 where r: "race_measure rd msr = Inr rd1"
    by (cases "race_measure rd msr") simp_all
  with Cons.prems have "race_measures rd1 msrs = Inr rd'" by simp
  from Cons.IH[OF this] race_measure_Inr[OF r] show ?case by simp
qed

lemma extract_race_data_Inr:
  assumes "extract_race_data rs = Inr rd"
  shows "rd = spec_race_data rs"
proof -
  from assms obtain bcm where b: "py_get rs ''baselineCharacteristicsModule'' (JObj []) = Inr bcm"
    by (cases "py_get rs ''baselineCharacteristicsModule'' (JObj [])")
       (simp_all add: extract_race_data_def)
  with assms obtain mv where m: "py_get bcm ''measures'' (JList []) = Inr mv"
    by (cases "py_get bcm ''measures'' (JList [])") (simp_all add: extract_race_data_def)
  with assms b obtain msrs where i: "py_iter mv = Inr msrs"
    by (cases "py_iter mv") (simp_all add: extract_race_data_def)
  with assms b m have "race_measures [] msrs = Inr rd" by (simp add: extract_race_data_def)
  from race_measures_Inr[OF this] b m i show ?thesis
    by (simp add: spec_race_data_def the_json_def the_list_def)
qed

lemma extract_study_details_Inr:
  assumes "extract_study_details study country = Inr d"
    and "py_get study ''protocolSection'' (JObj []) = Inr protocol" and "truthy protocol"
    and "py_get study ''resultsSection'' (JObj []) = Inr rs" and "truthy rs"
  shows "race_data d = spec_race_data rs"
proof -
  from assms obtain d0 where d0: "extract_protocol protocol country = Inr d0"
    by (cases "extract_protocol protocol country") (simp_all add: extract_study_details_def)
  with assms obtain rd where rd: "extract_race_data rs = Inr rd" and d: "d = d0\<lparr>race_data := rd\<rparr>"
    by (cases "extract_race_data rs") (auto simp: extract_study_details_def)
  from extract_race_data_Inr[OF rd] d show ?thesis by simp
qed

lemma spec_race_category_titled:
  assumes "py_get cat ''title'' JNull = Inr (JStr t)" and "t \<noteq> []"
    and "py_get cat ''measurements'' (JList []) = Inr (JList ms)"
  shows "spec_race_category rd cat
     = AList.update (race_key t) (JInt (sum_list (map measurement_int ms))) rd"
  using assms by (simp add: spec_race_category_def the_json_def the_list_def)

text \<open>
  Claim C7, amended. For a study with a non-empty protocol section and a non-empty
  results section: when \<^verbatim>\<open>extract_study_details\<close> returns, the race data it returns are the
  counts the specification describes, each the sum of the category's converted
  measurement values, a measurement without a value counting as 0, stored under "Race_"
  plus the title with every space replaced by an underscore, and \<^verbatim>\<open>int\<close> has accepted
  every value of every category read; when \<^verbatim>\<open>int\<close> rejects a value of such a category,
  \<^verbatim>\<open>extract_study_details\<close> raises and returns no details.
\<close>

theorem extract_study_details_race_counts:
  assumes "py_get study ''protocolSection'' (JObj []) = Inr protocol" and "truthy protocol"
    and "py_get study ''resultsSection'' (JObj []) = Inr rs" and "truthy rs"
    and "py_get rs ''baselineCharacteristicsModule'' (JObj []) = Inr bcm"
    and "py_get bcm ''measures'' (JList []) = Inr (JList msrs)"
    and "msr \<in> set msrs"
    and "py_get msr ''title'' JNull = Inr (JStr ''Race (NIH/OMB)'')"
    and "py_get msr ''classes'' (JList [JObj []]) = Inr (JList (cls # others))"
    and "py_get cls ''categories'' (JList []) = Inr (JList cats)"
    and "cat \<in> set cats"
    and "py_get cat ''title'' JNull = Inr (JStr t)" and "t \<noteq> []"
    and "py_get cat ''measurements'' (JList []) = Inr (JList ms)"
  shows "(\<forall>d. extract_study_details study country = Inr d \<longrightarrow>
            race_data d = spec_race_data rs \<and> (\<forall>m \<in> set ms. convertible m))
       \<and> spec_race_category rd cat
            = AList.update (race_key t) (JInt (\<Sum>m\<leftarrow>ms. measurement_int m)) rd
       \<and> ((\<forall>m \<in> set ms. convertible m) \<longrightarrow>
            race_category rd cat =
              Inr (AList.update (race_key t) (JInt (\<Sum>m\<leftarrow>ms. measurement_int m)) rd))
       \<and> ((\<exists>m \<in> set ms. \<not> convertible m) \<longrightarrow>
            (\<exists>e. extract_study_details study country = Inl e))
       \<and> (\<forall>kvs. map_of kvs ''value'' = None \<longrightarrow>
            convertible (JObj kvs) \<and> measurement_int (JObj kvs) = 0)"
proof -
  have fail: "\<exists>e. extract_study_details study country = Inl e"
    if "\<exists>m \<in> set ms. \<not> convertible m"
  proof -
    from that obtain m where m: "m \<in> set ms" "\<not> convertible m" by blast
    have c: "\<And>rd. \<exists>e. race_category rd cat = Inl e"
      using assms(12-14) m by (rule race_category_fail)
    have "\<And>rd. \<exists>e. race_measure rd msr = Inl e"
      using assms(8-11) c by (rule race_measure_fail)
    with assms(7) have "\<exists>e. race_measures [] msrs = Inl e" by (rule race_measures_fail)
    with assms(1-6) show ?thesis by (rule extract_study_details_race_fail)
  qed
  have ret: "race_data d = spec_race_data rs \<and> (\<forall>m \<in> set ms. convertible m)"
    if "extract_study_details study country = Inr d" for d
  proof
    from that assms(1-4) show "race_data d = spec_race_data rs"
      by (rule extract_study_details_Inr)
    show "\<forall>m \<in> set ms. convertible m"
    proof (rule ccontr)
      assume "\<not> (\<forall>m \<in> set ms. convertible m)"
      then have "\<exists>m \<in> set ms. \<not> convertible m" by blast
      from fail[OF this] that show False by simp
    qed
  qed
  have spec: "spec_race_category rd cat
      = AList.update (race_key t) (JInt (\<Sum>m\<leftarrow>ms. measurement_int m)) rd"
    using assms(12-14) by (rule spec_race_category_titled)
  have ok: "(\<forall>m \<in> set ms. convertible m) \<longrightarrow>
      race_category rd cat = Inr (AList.update (race_key t) (JInt (\<Sum>m\<leftarrow>ms. measurement_int m)) rd)"
    using assms(12-14) by (auto intro: race_category_ok)
  have miss: "\<forall>kvs. map_of kvs ''value'' = None \<longrightarrow>
      convertible (JObj kvs) \<and> measurement_int (JObj kvs) = 0"
    by (simp add: convertible_def measurement_int_def missing_value_zero)
  from ret fail spec ok miss show ?thesis by blast
qed

lemmas race_example_defs =
  race_study_def race_protocol_def race_results_section_def race_measure_record_def
  race_category_record_def

theorem extract_study_details_race_counts_witness:
  "(\<exists>d. extract_study_details
            (race_study [JObj [(''value'', JStr ''12'')], JObj [], JObj [(''value'', JInt 3)]])
            ''United States'' = Inr d
        \<and> race_data d = [(''Race_Black_or_African_American'', JInt 15)])
   \<and> (\<exists>e. extract_study_details (race_study [JObj [(''value'', JStr ''NA'')]]) ''United States''
          = Inl e)"
proof -
  let ?good = "[JObj [(''value'', JStr ''12'')], JObj [], JObj [(''value'', JInt 3)]]"
  let ?bad = "[JObj [(''value'', JStr ''NA'')]]"
  have b: "\<exists>m \<in> set ?bad. \<not> convertible m" by code_simp
  have "case extract_study_details (race_study ?good) ''United States'' of
          Inr d \<Rightarrow> True | Inl e \<Rightarrow> False"
    by code_simp
  then have r: "\<exists>d. extract_study_details (race_study ?good) ''United States'' = Inr d"
    by (cases "extract_study_details (race_study ?good) ''United States''") simp_all
  have s: "spec_race_data (race_results_section ?good)
      = [(''Race_Black_or_African_American'', JInt 15)]"
    by code_simp
  note g = extract_study_details_race_counts[where study = "race_study ?good"
        and protocol = race_protocol and rs = "race_results_section ?good"
        and bcm = "JObj [(''measures'', JList [race_measure_record ?good])]"
        and msrs = "[race_measure_record ?good]" and msr = "race_measure_record ?good"
        and cls = "JObj [(''categories'', JList [race_category_record ?good])]"
        and others = "[]" and cats = "[race_category_record ?good]"
        and cat = "race_category_record ?good" and t = "''Black or African American''"
        and ms = ?good and rd = "[]" and country = "''United States''"]
  have "\<forall>d. extract_study_details (race_study ?good) ''United States'' = Inr d \<longrightarrow>
      race_data d = spec_race_data (race_results_section ?good)"
    using g by (simp add: race_example_defs)
  with r s have "\<exists>d. extract_study_details (race_study ?good) ''United States'' = Inr d
      \<and> race_data d = [(''Race_Black_or_African_American'', JInt 15)]"
    by auto
  moreover have "\<exists>e. extract_study_details (race_study ?bad) ''United States'' = Inl e"
    using b extract_study_details_race_counts[where study = "race_study ?bad"
        and protocol = race_protocol and rs = "race_results_section ?bad"
        and bcm = "JObj [(''measures'', JList [race_measure_record ?bad])]"
        and msrs = "[race_measure_record ?bad]" and msr = "race_measure_record ?bad"
        and cls = "JObj [(''categories'', JList [race_category_record ?bad])]"
        and others = "[]" and cats = "[race_category_record ?bad]"
        and cat = "race_category_record ?bad" and t = "''Black or African American''"
        and ms = ?bad and rd = "[]" and country = "''United States''"]
    by (simp add: race_example_defs)
  ultimately show ?thesis by blast
qed

section \<open>Properties of the geocoding stage\<close>

subsection \<open>The cache and the call log\<close>

lemma write_result_calls [simp]: "calls (write_result i res st) = calls st"
  by (simp add: write_result_def split: option.splits list.splits)

lemma write_result_cache [simp]: "query_cache (write_result i res st) = query_cache st"
  by (simp add: write_result_def split: option.splits list.splits)

lemma geocode_row_hit:
  assumes "map_of (query_cache st) q = Some res"
  shows "geocode_row gmaps st (i, q) = write_result i res st"
  using assms by (simp add: geocode_row_def)

lemma geocode_row_miss:
  assumes "map_of (query_cache st) q = None"
  shows "calls (geocode_row gmaps st (i, q)) = calls st @ [q]"
    and "query_cache (geocode_row gmaps st (i, q))
           = AList.update q (stored (gmaps (length (calls st)) q)) (query_cache st)"
  using assms by (simp_all add: geocode_row_def split: api_result.splits)

lemma geocode_row_inv:
  assumes "cache_inv gmaps st"
  shows "cache_inv gmaps (geocode_row gmaps st (i, q))"
    and "set (calls (geocode_row gmaps st (i, q))) = insert q (set (calls st))"
proof -
  from assms have d: "distinct (calls st)" and k: "set (calls st) = fst ` set (query_cache st)"
    and v: "\<And>n. n < length (calls st) \<Longrightarrow>
        map_of (query_cache st) (calls st ! n) = Some (stored (gmaps n (calls st ! n)))"
    by (simp_all add: cache_inv_def)
  show "cache_inv gmaps (geocode_row gmaps st (i, q))"
  proof (cases "map_of (query_cache st) q")
    case None
    then have nq: "q \<notin> set (calls st)" using k by (simp add: map_of_eq_None_iff)
    note m = geocode_row_miss[OF None, of gmaps i]
    have "\<forall>n < length (calls st @ [q]).
        map_of (AList.update q (stored (gmaps (length (calls st)) q)) (query_cache st))
          ((calls st @ [q]) ! n) = Some (stored (gmaps n ((calls st @ [q]) ! n)))"
    proof (intro allI impI)
      fix n assume n: "n < length (calls st @ [q])"
      show "map_of (AList.update q (stored (gmaps (length (calls st)) q)) (query_cache st))
          ((calls st @ [q]) ! n) = Some (stored (gmaps n ((calls st @ [q]) ! n)))"
      proof (cases "n < length (calls st)")
        case True
        then have "calls st ! n \<noteq> q" using nq nth_mem by metis
        with True v[OF True] show ?thesis by (simp add: nth_append update_conv')
      next
        case False
        with n have "n = length (calls st)" by simp
        then show ?thesis by (simp add: update_conv')
      qed
    qed
    with d k nq show ?thesis
      unfolding cache_inv_def m by (auto simp: dom_update)
  next
    case (Some res)
    with assms show ?thesis by (simp add: geocode_row_hit cache_inv_def)
  qed
  show "set (calls (geocode_row gmaps st (i, q))) = insert q (set (calls st))"
  proof (cases "map_of (query_cache st) q")
    case None
    then show ?thesis by (simp add: geocode_row_miss)
  next
    case (Some res)
    then have "q \<in> fst ` set (query_cache st)" by (metis map_of_eq_None_iff option.distinct(1))
    with k Some show ?thesis by (auto simp: geocode_row_hit)
  qed
qed

lemma geocode_fold_inv:
  assumes "cache_inv gmaps st"
  shows "cache_inv gmaps (fold (\<lambda>iq st. geocode_row gmaps st iq) iqs st)
     \<and> set (calls (fold (\<lambda>iq st. geocode_row gmaps st iq) iqs st)) = set (calls st) \<union> snd ` set iqs"
  using assms
proof (induction iqs arbitrary: st)
  case Nil
  then show ?case by simp
next
  case (Cons iq iqs)
  obtain i q where iq: "iq = (i, q)" by (cases iq)
  from geocode_row_inv[OF Cons.prems, of i q] Cons.IH[of "geocode_row gmaps st (i, q)"]
  show ?case by (auto simp: iq)
qed

lemma rows_to_process_queries:
  "snd ` set (rows_to_process rows) = {q. q \<noteq> ''SKIP'' \<and> q \<in> search_query ` set rows}"
proof -
  have "snd ` set (rows_to_process rows)
      = search_query ` {r \<in> snd ` set (zip [0 ..< length rows] rows). search_query r \<noteq> ''SKIP''}"
    by (force simp: rows_to_process_def)
  moreover have "snd ` set (zip [0 ..< length rows] rows) = set rows"
    by (metis length_upt map_snd_zip minus_nat.diff_0 set_map)
  ultimately show ?thesis by auto
qed

lemma build_search_query_SKIP:
  "build_search_query fac cty st zp = ''SKIP'' \<longleftrightarrow> fatal_flaw fac zp"
proof -
  have "\<And>x y. fac @ '', '' @ x \<noteq> ''SKIP''"
  proof
    fix x assume "fac @ '', '' @ x = ''SKIP''"
    moreover have "CHR '','' \<in> set (fac @ '', '' @ x)" by simp
    ultimately have "CHR '','' \<in> set ''SKIP''" by (simp only:)
    then show False by simp
  qed
  then show ?thesis by (simp add: build_search_query_def)
qed

lemma count_list_distinct:
  "distinct xs \<Longrightarrow> count_list xs x = (if x \<in> set xs then 1 else 0)"
  by (induction xs) auto

lemma geocode_run_inv:
  "cache_inv gmaps (geocode_run gmaps rows)"
  "set (calls (geocode_run gmaps rows))
       = {q. q \<noteq> ''SKIP'' \<and> q \<in> (\<lambda>r. search_query (prepare_row r)) ` set rows}"
proof -
  have i: "cache_inv gmaps \<lparr>df = map prepare_row rows, query_cache = [], calls = []\<rparr>"
    by (simp add: cache_inv_def)
  from geocode_fold_inv[OF i, of "rows_to_process (map prepare_row rows)"]
  show "cache_inv gmaps (geocode_run gmaps rows)"
    "set (calls (geocode_run gmaps rows))
       = {q. q \<noteq> ''SKIP'' \<and> q \<in> (\<lambda>r. search_query (prepare_row r)) ` set rows}"
    by (auto simp: geocode_run_def Let_def rows_to_process_queries)
qed

text \<open>
  Claim C2. For every table and every behaviour of the API, the query string of a workable
  row is sent to the API exactly once in the whole run, however many rows share it: the
  log of calls has no repetition, the query occurs once in it, and the cache holds for it
  the answer of that one call, the failure marker when the call failed.
\<close>

theorem geocode_one_call_per_query:
  assumes "r \<in> set rows" and "search_query (prepare_row r) \<noteq> ''SKIP''"
  shows "distinct (calls (geocode_run gmaps rows))
     \<and> count_list (calls (geocode_run gmaps rows)) (search_query (prepare_row r)) = 1
     \<and> (\<exists>n < length (calls (geocode_run gmaps rows)).
          calls (geocode_run gmaps rows) ! n = search_query (prepare_row r)
          \<and> map_of (query_cache (geocode_run gmaps rows)) (search_query (prepare_row r))
              = Some (stored (gmaps n (search_query (prepare_row r)))))"
proof -
  let ?run = "geocode_run gmaps rows" and ?q = "search_query (prepare_row r)"
  from geocode_run_inv(1)[of gmaps rows] have d: "distinct (calls ?run)"
    and v: "\<forall>n < length (calls ?run).
        map_of (query_cache ?run) (calls ?run ! n) = Some (stored (gmaps n (calls ?run ! n)))"
    by (simp_all add: cache_inv_def)
  from assms have m: "?q \<in> set (calls ?run)" by (auto simp: geocode_run_inv(2))
  then obtain n where n: "n < length (calls ?run)" "calls ?run ! n = ?q"
    by (auto simp: in_set_conv_nth)
  with v have "map_of (query_cache ?run) ?q = Some (stored (gmaps n ?q))" by auto
  with d m n show ?thesis by (auto simp: count_list_distinct)
qed

theorem geocode_one_call_per_query_witness:
  "calls (geocode_run failing_api [clinic_row, site_row, clinic_row])
     = [''Main Clinic, Boston, Massachusetts 02115'']
   \<and> count_list (calls (geocode_run failing_api [clinic_row, site_row, clinic_row]))
        ''Main Clinic, Boston, Massachusetts 02115'' = 1
   \<and> query_cache (geocode_run failing_api [clinic_row, site_row, clinic_row])
     = [(''Main Clinic, Boston, Massachusetts 02115'', None)]"
proof -
  have q: "search_query (prepare_row clinic_row) = ''Main Clinic, Boston, Massachusetts 02115''"
    by code_simp
  have h1: "clinic_row \<in> set [clinic_row, site_row, clinic_row]" by simp
  have h2: "search_query (prepare_row clinic_row) \<noteq> ''SKIP''" by (simp add: q)
  have c: "calls (geocode_run failing_api [clinic_row, site_row, clinic_row])
     = [''Main Clinic, Boston, Massachusetts 02115'']"
    and k: "query_cache (geocode_run failing_api [clinic_row, site_row, clinic_row])
     = [(''Main Clinic, Boston, Massachusetts 02115'', None)]"
    by code_simp+
  from geocode_one_call_per_query[OF h1 h2, of failing_api] c k
  show ?thesis by (simp add: q)
qed

subsection \<open>What the loop writes\<close>

lemma write_result_df:
  "\<exists>f. df (write_result idx res st) = (df st)[idx := f (df st ! idx)]
       \<and> (\<forall>r. row_frame (f r) = row_frame r)"
proof (cases "\<exists>p ps. res = Some (p # ps)")
  case True
  then obtain p ps where res: "res = Some (p # ps)" by blast
  show ?thesis
    by (rule exI[of _ "\<lambda>r. r\<lparr>latitude := lat p, longitude := lng p,
          place_name := (case name p of Some n \<Rightarrow> CStr n | None \<Rightarrow> CNone)\<rparr>"])
       (simp add: res write_result_def row_frame_def)
next
  case False
  then have "df (write_result idx res st)
      = (df st)[idx := (df st ! idx)\<lparr>place_name := CStr ''NO_RESULTS_FOUND''\<rparr>]"
    by (auto simp: write_result_def split: option.splits list.splits)
  then show ?thesis
    by (intro exI[of _ "\<lambda>r. r\<lparr>place_name := CStr ''NO_RESULTS_FOUND''\<rparr>"])
       (simp add: row_frame_def)
qed

lemma geocode_row_df:
  "\<exists>f. df (geocode_row gmaps st (idx, q)) = (df st)[idx := f (df st ! idx)]
       \<and> (\<forall>r. row_frame (f r) = row_frame r)"
proof (cases "map_of (query_cache st) q")
  case (Some res)
  then show ?thesis using write_result_df[of idx res st] by (simp add: geocode_row_def)
next
  case None
  show ?thesis
  proof (cases "gmaps (length (calls st)) q")
    case ApiError
    with None have "df (geocode_row gmaps st (idx, q)) = (df st)[idx := id (df st ! idx)]"
      by (simp add: geocode_row_def)
    then show ?thesis by (intro exI[of _ id]) simp
  next
    case (Results rs)
    with None show ?thesis
      using write_result_df[of idx "Some rs"
          "st\<lparr>query_cache := AList.update q (Some rs) (query_cache st), calls := calls st @ [q]\<rparr>"]
      by (simp add: geocode_row_def)
  qed
qed

lemma geocode_row_frame:
  "length (df (geocode_row gmaps st (idx, q))) = length (df st)"
  "i \<noteq> idx \<Longrightarrow> df (geocode_row gmaps st (idx, q)) ! i = df st ! i"
  "i < length (df st) \<Longrightarrow> row_frame (df (geocode_row gmaps st (idx, q)) ! i) = row_frame (df st ! i)"
proof -
  from geocode_row_df[of gmaps st idx q] obtain f where
    f: "df (geocode_row gmaps st (idx, q)) = (df st)[idx := f (df st ! idx)]"
    and fr: "\<And>r. row_frame (f r) = row_frame r" by blast
  show "length (df (geocode_row gmaps st (idx, q))) = length (df st)" by (simp add: f)
  show "i \<noteq> idx \<Longrightarrow> df (geocode_row gmaps st (idx, q)) ! i = df st ! i" by (simp add: f)
  show "i < length (df st) \<Longrightarrow>
      row_frame (df (geocode_row gmaps st (idx, q)) ! i) = row_frame (df st ! i)"
    by (cases "i = idx") (simp_all add: f fr)
qed

lemma geocode_fold_frame:
  "length (df (fold (\<lambda>iq st. geocode_row gmaps st iq) iqs st)) = length (df st)
   \<and> (i \<notin> fst ` set iqs \<longrightarrow> df (fold (\<lambda>iq st. geocode_row gmaps st iq) iqs st) ! i = df st ! i)
   \<and> (i < length (df st) \<longrightarrow>
        row_frame (df (fold (\<lambda>iq st. geocode_row gmaps st iq) iqs st) ! i) = row_frame (df st ! i))"
proof (induction iqs arbitrary: st)
  case Nil
  then show ?case by simp
next
  case (Cons iq iqs)
  obtain idx q where iq: "iq = (idx, q)" by (cases iq)
  from Cons.IH[of "geocode_row gmaps st (idx, q)"]
    geocode_row_frame(1)[where gmaps = gmaps and st = st and idx = idx and q = q]
    geocode_row_frame(2)[where gmaps = gmaps and st = st and idx = idx and q = q and i = i]
    geocode_row_frame(3)[where gmaps = gmaps and st = st and idx = idx and q = q and i = i]
  show ?case by (auto simp: iq)
qed

lemma rows_to_process_indices:
  assumes "i < length rows" and "search_query (rows ! i) = ''SKIP''"
  shows "i \<notin> fst ` set (rows_to_process rows)"
proof
  assume "i \<in> fst ` set (rows_to_process rows)"
  then obtain r where "(i, r) \<in> set (zip [0 ..< length rows] rows)" "search_query r \<noteq> ''SKIP''"
    by (force simp: rows_to_process_def)
  then have "r = rows ! i" by (auto simp: set_zip)
  with \<open>search_query r \<noteq> ''SKIP''\<close> assms(2) show False by simp
qed

lemma py_str_CStr: "CStr (py_str (CStr s)) = CStr s"
  by simp

text \<open>
  Claim C8 says that every field other than latitude, longitude and the display name is
  unchanged in every row. The stage first rewrites the four address columns with
  \<^verbatim>\<open>astype(str)\<close>: a row whose zip is NaN leaves with the string "nan", also when the row is
  skipped.
\<close>

theorem geocode_frame_counterexample:
  "zip_code site_row = CNaN
   \<and> search_query (geocode_locations_with_places_api one_place_api [site_row] ! 0) = ''SKIP''
   \<and> zip_code (geocode_locations_with_places_api one_place_api [site_row] ! 0) = CStr ''nan''
   \<and> zip_code (geocode_locations_with_places_api one_place_api [site_row] ! 0) \<noteq> zip_code site_row"
  by code_simp

text \<open>
  Claim C8, amended. In every row the stage leaves all other columns unchanged, replaces
  facility, city, state and zip by their string form (the same value when the cell already
  holds a string), and adds the search query computed from them; a row whose query is the
  SKIP sentinel keeps its latitude and longitude and gets the empty display name. Only
  rows classified workable have latitude, longitude or display name written by the loop.
\<close>

theorem geocode_frame:
  assumes "i < length rows"
  shows "length (geocode_locations_with_places_api gmaps rows) = length rows
     \<and> other_columns (geocode_locations_with_places_api gmaps rows ! i) = other_columns (rows ! i)
     \<and> facility (geocode_locations_with_places_api gmaps rows ! i) = CStr (py_str (facility (rows ! i)))
     \<and> city (geocode_locations_with_places_api gmaps rows ! i) = CStr (py_str (city (rows ! i)))
     \<and> state (geocode_locations_with_places_api gmaps rows ! i) = CStr (py_str (state (rows ! i)))
     \<and> zip_code (geocode_locations_with_places_api gmaps rows ! i) = CStr (py_str (zip_code (rows ! i)))
     \<and> search_query (geocode_locations_with_places_api gmaps rows ! i)
          = search_query (prepare_row (rows ! i))
     \<and> (search_query (prepare_row (rows ! i)) = ''SKIP'' \<longrightarrow>
          latitude (geocode_locations_with_places_api gmaps rows ! i) = latitude (rows ! i)
          \<and> longitude (geocode_locations_with_places_api gmaps rows ! i) = longitude (rows ! i)
          \<and> place_name (geocode_locations_with_places_api gmaps rows ! i) = CStr [])"
proof -
  let ?rows0 = "map prepare_row rows"
  let ?st0 = "\<lparr>df = ?rows0, query_cache = [], calls = []\<rparr> :: ('a, 'b) geo_state"
  let ?out = "geocode_locations_with_places_api gmaps rows"
  have out: "?out = df (fold (\<lambda>iq st. geocode_row gmaps st iq) (rows_to_process ?rows0) ?st0)"
    by (simp add: geocode_locations_with_places_api_def geocode_run_def Let_def)
  from geocode_fold_frame[of gmaps "rows_to_process ?rows0" ?st0 i] assms
  have len: "length ?out = length rows"
    and skip: "i \<notin> fst ` set (rows_to_process ?rows0) \<Longrightarrow> ?out ! i = ?rows0 ! i"
    and fr: "row_frame (?out ! i) = row_frame (?rows0 ! i)"
    unfolding out by simp_all
  from fr assms have f: "other_columns (?out ! i) = other_columns (rows ! i)"
    "facility (?out ! i) = CStr (py_str (facility (rows ! i)))"
    "city (?out ! i) = CStr (py_str (city (rows ! i)))"
    "state (?out ! i) = CStr (py_str (state (rows ! i)))"
    "zip_code (?out ! i) = CStr (py_str (zip_code (rows ! i)))"
    "search_query (?out ! i) = search_query (prepare_row (rows ! i))"
    by (simp_all add: row_frame_def prepare_row_def)
  have s: "search_query (prepare_row (rows ! i)) = ''SKIP'' \<Longrightarrow> ?out ! i = prepare_row (rows ! i)"
  proof -
    assume "search_query (prepare_row (rows ! i)) = ''SKIP''"
    with assms have "i \<notin> fst ` set (rows_to_process ?rows0)"
      by (intro rows_to_process_indices) simp_all
    from skip[OF this] assms show ?thesis by simp
  qed
  have "search_query (prepare_row (rows ! i)) = ''SKIP'' \<longrightarrow>
          latitude (?out ! i) = latitude (rows ! i)
          \<and> longitude (?out ! i) = longitude (rows ! i)
          \<and> place_name (?out ! i) = CStr []"
  proof
    assume k: "search_query (prepare_row (rows ! i)) = ''SKIP''"
    show "latitude (?out ! i) = latitude (rows ! i)
          \<and> longitude (?out ! i) = longitude (rows ! i)
          \<and> place_name (?out ! i) = CStr []"
      unfolding s[OF k] by (simp add: prepare_row_def)
  qed
  with len f show ?thesis by blast
qed

theorem geocode_frame_witness:
  "search_query (prepare_row site_row) = ''SKIP''
   \<and> zip_code (geocode_locations_with_places_api one_place_api [clinic_row, site_row] ! 1) = CStr ''nan''
   \<and> latitude (geocode_locations_with_places_api one_place_api [clinic_row, site_row] ! 1) = Some 40
   \<and> longitude (geocode_locations_with_places_api one_place_api [clinic_row, site_row] ! 1) = Some (- 70)
   \<and> facility (geocode_locations_with_places_api one_place_api [clinic_row, site_row] ! 0)
       = CStr ''Main Clinic''
   \<and> latitude (geocode_locations_with_places_api one_place_api [clinic_row, site_row] ! 0) = Some 1"
proof -
  have h1: "1 < length [clinic_row, site_row]" and h0: "0 < length [clinic_row, site_row]"
    by simp_all
  have k: "search_query (prepare_row site_row) = ''SKIP''" by code_simp
  have l: "latitude (geocode_locations_with_places_api one_place_api [clinic_row, site_row] ! 0) = Some 1"
    by code_simp
  from geocode_frame[OF h1, of one_place_api] geocode_frame[OF h0, of one_place_api] k l
  show ?thesis by (simp add: site_row_def clinic_row_def)
qed

text \<open>
  Claim C6 says that after a failed lookup the display name is left unset both in the row
  on which the call failed and in every later row sharing the query. The failing row is
  left as it was (\<^verbatim>\<open>continue\<close>), but a later row finds the failure marker in the cache and
  falls to the branch for an empty result: with an API that always fails, the second of
  two rows with the same query gets the display name "NO_RESULTS_FOUND". One call is made
  and the batch runs to its end.
\<close>

theorem geocode_cached_failure_marks_later_row:
  "map (\<lambda>r. (latitude r, longitude r, place_name r))
     (geocode_locations_with_places_api failing_api [clinic_row, clinic_row])
   = [(Some 42, Some (- 71), CStr []), (Some 42, Some (- 71), CStr ''NO_RESULTS_FOUND'')]
   \<and> calls (geocode_run failing_api [clinic_row, clinic_row])
       = [''Main Clinic, Boston, Massachusetts 02115'']"
  by code_simp

end
